theory Spec2Isabelle
  imports Complex_Main
begin

section \<open>Arrays and errors\<close>

text \<open>
  The exceptions the modelled code raises. \<open>OutOfBoundsError\<close> carries the name of the
  variable, the offending value and the lower and upper bounds, as the constructor of
  \<^verbatim>\<open>utils.errors.OutOfBoundsError\<close> is called in the source.
\<close>

datatype error =
    ValueError
  | ShapeError
  | IndexError
  | KeyError
  | RuntimeError
  | OutOfBoundsError string "int list" "int list" "int list"

text \<open>
  A numpy array is its shape and its cells, read at an index vector. Only the cells at
  indices within the shape are meaningful.
\<close>

datatype 'a ndarray = NDArray (shape: "nat list") (item: "int list \<Rightarrow> 'a")

definition ndim :: "'a ndarray \<Rightarrow> nat" where
  "ndim a = length (shape a)"

definition in_bounds :: "nat list \<Rightarrow> int list \<Rightarrow> bool" where
  "in_bounds shp idx = list_all2 (\<lambda>i n. 0 \<le> i \<and> i < int n) idx shp"

fun indices :: "nat list \<Rightarrow> int list list" where
  "indices [] = [[]]"
| "indices (n # ns) = [i # js. i \<leftarrow> map int [0..<n], js \<leftarrow> indices ns]"

definition np_sum :: "int ndarray \<Rightarrow> int" where
  "np_sum a = sum_list (map (item a) (indices (shape a)))"

definition np_zeros :: "nat list \<Rightarrow> 'a::zero ndarray" where
  "np_zeros shp = NDArray shp (\<lambda>_. 0)"

definition vadd :: "int list \<Rightarrow> int list \<Rightarrow> int list" where
  "vadd a b = map2 (+) a b"

definition vsub :: "int list \<Rightarrow> int list \<Rightarrow> int list" where
  "vsub a b = map2 (-) a b"

definition max_list :: "int list \<Rightarrow> int" where
  "max_list xs = fold max (tl xs) (hd xs)"

definition min_list :: "int list \<Rightarrow> int" where
  "min_list xs = fold min (tl xs) (hd xs)"

definition all_odd :: "nat list \<Rightarrow> bool" where
  "all_odd shp = list_all odd shp"

section \<open>Structuring elements (\<^verbatim>\<open>utils/morphology.py\<close>, class \<^verbatim>\<open>Strel\<close>)\<close>

text \<open>
  \<^verbatim>\<open>Strel.periodic_line(p, v)\<close>. \<open>arange(-p, p + 1)\<close> is \<open>[-p..p]\<close>, empty for
  negative \<open>p\<close>, where the maximum of the empty array raises \<open>ValueError\<close>.
\<close>

definition periodic_line :: "int \<Rightarrow> int \<times> int \<Rightarrow> error + int ndarray" where
  "periodic_line p v =
     (let pp = [- p..p];
          r = map (\<lambda>k. k * fst v) pp;
          c = map (\<lambda>k. k * snd v) pp
      in if pp = [] then Inl ValueError
         else
           let mr = max_list (map abs r);
               mc = max_list (map abs c);
               M = 2 * mr + 1;
               N = 2 * mc + 1
           in Inr (NDArray [nat M, nat N]
                     (\<lambda>idx. if idx \<in> set (map2 (\<lambda>a b. [a + mr, b + mc]) r c) then 1 else 0)))"

text \<open>
  Values of the float image that \<^verbatim>\<open>Strel.disk\<close> dilates: minus infinity or a number.
\<close>

datatype ext = NegInf | Val int

fun emax :: "ext \<Rightarrow> ext \<Rightarrow> ext" where
  "emax NegInf y = y"
| "emax x NegInf = x"
| "emax (Val a) (Val b) = Val (max a b)"

fun ext_pos :: "ext \<Rightarrow> bool" where
  "ext_pos NegInf = False"
| "ext_pos (Val a) = (0 < a)"

text \<open>
  \<^verbatim>\<open>ensure_odd_kernel(kernel, pad_location)\<close>: every even dimension gets one plane of
  zeros, before the data for \<open>'start'\<close> and after it for \<open>'end'\<close>. The pad location is
  only looked at when some dimension is even.
\<close>

definition ensure_odd_kernel :: "'a::zero ndarray \<Rightarrow> string \<Rightarrow> error + 'a ndarray" where
  "ensure_odd_kernel krn pad_location =
     (let even_dims = map (\<lambda>n. if n mod 2 = 0 then (1::nat) else 0) (shape krn)
      in if list_ex (\<lambda>e. e = 1) even_dims then
           if pad_location = ''start'' then
             Inr (NDArray (map2 (+) (shape krn) even_dims)
                    (\<lambda>idx. if list_all2 (\<lambda>i e. int e \<le> i) idx even_dims
                           then item krn (vsub idx (map int even_dims)) else 0))
           else if pad_location = ''end'' then
             Inr (NDArray (map2 (+) (shape krn) even_dims)
                    (\<lambda>idx. if in_bounds (shape krn) idx then item krn idx else 0))
           else Inl ValueError
         else Inr krn)"

text \<open>
  \<^verbatim>\<open>dilate(image, kernel)\<close>: scipy's \<open>grey_dilation\<close> with a footprint and constant
  padding (value 0): the maximum of the image over the reflected footprint placed with
  its centre on the pixel.
\<close>

definition centre :: "nat list \<Rightarrow> int list" where
  "centre shp = map (\<lambda>n. int (n div 2)) shp"

definition grey_dilation :: "ext ndarray \<Rightarrow> int ndarray \<Rightarrow> ext ndarray" where
  "grey_dilation img footprint =
     NDArray (shape img)
       (\<lambda>i. fold emax
              [let src = vsub i (vsub j (centre (shape footprint)))
               in if in_bounds (shape img) src then item img src else Val 0.
               j \<leftarrow> indices (shape footprint), item footprint j \<noteq> 0]
              NegInf)"

definition dilate :: "ext ndarray \<Rightarrow> int ndarray \<Rightarrow> error + ext ndarray" where
  "dilate img krn =
     (case ensure_odd_kernel krn ''start'' of
        Inl e \<Rightarrow> Inl e
      | Inr k \<Rightarrow> Inr (grey_dilation img k))"

text \<open>
  OpenCV's \<open>dilate\<close> of an 8-bit image with a kernel anchored at its centre; pixels
  outside the image do not take part.
\<close>

definition cv2_dilate :: "int ndarray \<Rightarrow> int ndarray \<Rightarrow> int ndarray" where
  "cv2_dilate src krn =
     NDArray (shape src)
       (\<lambda>i. fold max
              [item src (vadd i (vsub j (centre (shape krn)))).
               j \<leftarrow> indices (shape krn), item krn j \<noteq> 0,
               in_bounds (shape src) (vadd i (vsub j (centre (shape krn))))]
              0)"

definition np_ones :: "nat list \<Rightarrow> int ndarray" where
  "np_ones shp = NDArray shp (\<lambda>_. 1)"

definition gt0 :: "int ndarray \<Rightarrow> int ndarray" where
  "gt0 a = NDArray (shape a) (\<lambda>i. if 0 < item a i then 1 else 0)"

text \<open>The basis vectors of the decomposition, for \<open>n\<close> = 4, 6 and 8.\<close>

definition basis :: "int \<Rightarrow> (int \<times> int) list" where
  "basis n =
     (if n = 4 then [(1, 0), (1, 1), (0, 1), (- 1, 1)]
      else if n = 6 then [(1, 0), (1, 2), (2, 1), (0, 1), (- 1, 2), (- 2, 1)]
      else [(1, 0), (2, 1), (1, 1), (1, 2), (0, 1), (- 1, 2), (- 1, 1), (- 2, 1)])"

fun dilate_all :: "ext ndarray \<Rightarrow> (int \<times> (int \<times> int)) list \<Rightarrow> error + ext ndarray" where
  "dilate_all nhood [] = Inr nhood"
| "dilate_all nhood ((rp, v) # rest) =
     (case periodic_line rp v of
        Inl e \<Rightarrow> Inl e
      | Inr decomposition \<Rightarrow>
          (case dilate nhood decomposition of
             Inl e \<Rightarrow> Inl e
           | Inr nhood' \<Rightarrow> dilate_all nhood' rest))"

text \<open>
  \<^verbatim>\<open>Strel.disk(r, n)\<close>. The repetition count of each periodic line,
  \<^verbatim>\<open>int(np.floor(k / np.linalg.norm(v[q, :])))\<close> with
  \<^verbatim>\<open>k = 2 * r / (1 / np.tan(theta) + 1 / np.sin(theta))\<close>, is a floating-point
  computation; it is the parameter \<open>rp_of r n v\<close>.
\<close>

definition disk :: "(int \<Rightarrow> int \<Rightarrow> int \<times> int \<Rightarrow> int) \<Rightarrow> int \<Rightarrow> int \<Rightarrow> error + int ndarray" where
  "disk rp_of r n0 =
     (let n = (if r < 3 then 0 else n0) in
      if n = 0 then
        Inr (NDArray [nat (2 * r + 1), nat (2 * r + 1)]
               (\<lambda>idx. if (idx ! 1 - r)\<^sup>2 + (idx ! 0 - r)\<^sup>2 \<le> r\<^sup>2 then 1 else 0))
      else if n \<noteq> 4 \<and> n \<noteq> 6 \<and> n \<noteq> 8 then Inl ValueError
      else
        let sz = nat (2 * r - 1);
            mid = (int sz - 1) div 2;
            nhood0 = NDArray [sz, sz] (\<lambda>idx. if idx = [mid, mid] then Val 1 else NegInf)
        in case dilate_all nhood0 (map (\<lambda>v. (rp_of r n v, v)) (basis n)) of
             Inl e \<Rightarrow> Inl e
           | Inr nh \<Rightarrow>
               let nhood = NDArray (shape nh) (\<lambda>i. if ext_pos (item nh i) then (1::int) else 0);
                   extra_strel_size =
                     int (length [i \<leftarrow> [0..<sz].
                            sum_list (map (\<lambda>j. item nhood [int i, int j]) [0..<sz]) = 0]) + 1
               in if 0 < extra_strel_size then
                    Inr (gt0 (cv2_dilate
                                (cv2_dilate nhood (np_ones [1, nat extra_strel_size]))
                                (np_ones [nat extra_strel_size, 1])))
                  else Inr nhood)"

text \<open>\<^verbatim>\<open>Strel.disk_3d(r_xy, r_z)\<close>.\<close>

definition disk_3d :: "int \<Rightarrow> int \<Rightarrow> int ndarray" where
  "disk_3d r_xy r_z =
     NDArray [nat (2 * r_xy + 1), nat (2 * r_xy + 1), nat (2 * r_z + 1)]
       (\<lambda>idx. if (idx ! 0 - r_xy)\<^sup>2 + (idx ! 1 - r_xy)\<^sup>2 + (idx ! 2 - r_z)\<^sup>2 \<le> r_xy\<^sup>2
              then 1 else 0)"

text \<open>
  \<^verbatim>\<open>Strel.annulus(r0, r_xy, r_z=None)\<close>. The radii are floats in the source and
  reals here. The source squares them in floating point, \<^verbatim>\<open>r_xy ** 2\<close> and
  \<^verbatim>\<open>r0 ** 2\<close>, which rounds: \<open>fsq r\<close> stands for the float square of \<open>r\<close>. The
  squared distances are small integers, exact as floats, and the comparisons are exact.
\<close>

definition annulus :: "(real \<Rightarrow> real) \<Rightarrow> real \<Rightarrow> real \<Rightarrow> real option \<Rightarrow> int ndarray" where
  "annulus fsq r0 r_xy r_z =
     (let r_xy1_int = \<lfloor>r_xy\<rfloor> in
      case r_z of
        None \<Rightarrow>
          NDArray [nat (2 * r_xy1_int + 1), nat (2 * r_xy1_int + 1)]
            (\<lambda>idx. let m = (idx ! 0 - r_xy1_int)\<^sup>2 + (idx ! 1 - r_xy1_int)\<^sup>2
                   in if of_int m \<le> fsq r_xy \<and> fsq r0 < of_int m then 1 else 0)
      | Some rz \<Rightarrow>
          let r_z1_int = \<lfloor>rz\<rfloor> in
          NDArray [nat (2 * r_xy1_int + 1), nat (2 * r_xy1_int + 1), nat (2 * r_z1_int + 1)]
            (\<lambda>idx. let m = (idx ! 0 - r_xy1_int)\<^sup>2 + (idx ! 1 - r_xy1_int)\<^sup>2
                             + (idx ! 2 - r_z1_int)\<^sup>2
                   in if of_int m \<le> fsq r_xy \<and> fsq r0 < of_int m then 1 else 0))"

text \<open>The float square where it is exact, as for radii that are small integers.\<close>

definition exact_sq :: "real \<Rightarrow> real" where
  "exact_sq r = r\<^sup>2"

definition mask_contains :: "int ndarray \<Rightarrow> int list \<Rightarrow> bool" where
  "mask_contains a p =
     (let idx = vadd (centre (shape a)) p in in_bounds (shape a) idx \<and> item a idx = 1)"

section \<open>Filtering (\<^verbatim>\<open>utils/morphology.py\<close>, \<^verbatim>\<open>imfilter\<close>)\<close>

text \<open>
  scipy's \<open>correlate\<close> and \<open>convolve\<close> with mode \<open>'constant'\<close>: the kernel is laid
  with its centre (index \<open>size div 2\<close> in every axis) on the pixel, and pixels outside
  the image count as \<open>cval\<close>. Both refuse a kernel whose number of axes differs from the
  image's. The images filtered here hold 0 and 1, so the float32 sums of the source are
  exact and are integers.
\<close>

definition padded :: "int ndarray \<Rightarrow> int \<Rightarrow> int list \<Rightarrow> int" where
  "padded img cval idx = (if in_bounds (shape img) idx then item img idx else cval)"

definition correlate :: "int ndarray \<Rightarrow> int ndarray \<Rightarrow> int \<Rightarrow> error + int ndarray" where
  "correlate img krn cval =
     (if ndim krn \<noteq> ndim img then Inl RuntimeError
      else Inr (NDArray (shape img)
                  (\<lambda>i. sum_list
                         [item krn j * padded img cval (vadd i (vsub j (centre (shape krn)))).
                          j \<leftarrow> indices (shape krn)])))"

definition convolve :: "int ndarray \<Rightarrow> int ndarray \<Rightarrow> int \<Rightarrow> error + int ndarray" where
  "convolve img krn cval =
     (if ndim krn \<noteq> ndim img then Inl RuntimeError
      else Inr (NDArray (shape img)
                  (\<lambda>i. sum_list
                         [item krn j * padded img cval (vsub i (vsub j (centre (shape krn)))).
                          j \<leftarrow> indices (shape krn)])))"

text \<open>
  \<^verbatim>\<open>imfilter(image, kernel, padding, corr_or_conv)\<close> with a numeric \<open>padding\<close>, the
  only kind its callers here pass.
\<close>

definition imfilter :: "int ndarray \<Rightarrow> int ndarray \<Rightarrow> int \<Rightarrow> string \<Rightarrow> error + int ndarray" where
  "imfilter img krn padding corr_or_conv =
     (if corr_or_conv = ''corr'' then
        (case ensure_odd_kernel krn ''start'' of
           Inl e \<Rightarrow> Inl e
         | Inr k \<Rightarrow> correlate img k padding)
      else if corr_or_conv = ''conv'' then
        (case ensure_odd_kernel krn ''end'' of
           Inl e \<Rightarrow> Inl e
         | Inr k \<Rightarrow> convolve img k padding)
      else Inl ValueError)"

section \<open>Counting neighbours (\<^verbatim>\<open>omp/spots.py\<close>, \<^verbatim>\<open>count_spot_neighbours\<close>)\<close>

text \<open>
  Taking the mean over a last axis of length one removes that axis; the middle plane of
  a three-dimensional filter is the plane \<open>shape[2] div 2\<close>.
\<close>

definition drop_last_axis :: "'a ndarray \<Rightarrow> 'a ndarray" where
  "drop_last_axis a = NDArray (butlast (shape a)) (\<lambda>idx. item a (idx @ [0]))"

definition middle_plane :: "'a ndarray \<Rightarrow> 'a ndarray" where
  "middle_plane a =
     NDArray (take 2 (shape a)) (\<lambda>idx. item a (idx @ [int (shape a ! 2 div 2)]))"

definition isin01 :: "int ndarray \<Rightarrow> bool" where
  "isin01 a = list_all (\<lambda>j. item a j = 0 \<or> item a j = 1) (indices (shape a))"

definition pos_image_of :: "real ndarray \<Rightarrow> int ndarray" where
  "pos_image_of img = NDArray (shape img) (\<lambda>i. if 0 < item img i then 1 else 0)"

definition neg_image_of :: "real ndarray \<Rightarrow> int ndarray" where
  "neg_image_of img = NDArray (shape img) (\<lambda>i. if item img i < 0 then 1 else 0)"

text \<open>
  The corrections for an empty last axis, in the order of the source: spots of one
  coordinate more than the image has axes, all with a last coordinate of zero, lose that
  coordinate; an image of one axis more than the spots have coordinates, with a last
  axis of length one, loses that axis; so does a filter of one axis more than the image.
\<close>

definition correct_spots :: "'a ndarray \<Rightarrow> int list list \<Rightarrow> int list list" where
  "correct_spots img spot_yxz =
     (if int (ndim img) = int (length (hd spot_yxz)) - 1
         \<and> max_list (map (\<lambda>val. \<bar>last val\<bar>) spot_yxz) = 0
      then map (take (ndim img)) spot_yxz else spot_yxz)"

definition correct_image :: "'a ndarray \<Rightarrow> int list list \<Rightarrow> 'a ndarray" where
  "correct_image img spot_yxz =
     (if ndim img = length (hd spot_yxz) + 1 \<and> last (shape img) = 1
      then drop_last_axis img else img)"

definition correct_filter :: "'a ndarray \<Rightarrow> 'b ndarray \<Rightarrow> 'b ndarray" where
  "correct_filter img flt =
     (if int (ndim img) = int (ndim flt) - 1 \<and> last (shape flt) = 1
      then drop_last_axis flt else flt)"

text \<open>
  The filter as it is handed to \<open>imfilter\<close>: a three-dimensional filter over a
  two-dimensional image is cut to its middle plane, which a filter of depth zero does
  not have.
\<close>

definition fit_filter :: "int ndarray \<Rightarrow> int ndarray \<Rightarrow> error + int ndarray" where
  "fit_filter sign_image flt =
     (if ndim sign_image = 2 \<and> ndim flt = 3 then
        if shape flt ! 2 = 0 then Inl IndexError else Inr (middle_plane flt)
      else Inr flt)"

text \<open>
  The spots outside the image. \<open>val > max_yxz\<close> compares a spot with the largest
  index of every axis under numpy's broadcasting: the two must be equally long, or one
  of them of length one, else the comparison raises \<open>ValueError\<close>, as does the
  minimum of a spot with no coordinate. A spot with a negative coordinate is outside
  before the comparison is made.
\<close>

definition exceeds :: "int list \<Rightarrow> nat list \<Rightarrow> bool option" where
  "exceeds val shp =
     (if length val = length shp then Some (list_ex (\<lambda>(v, n). int n - 1 < v) (zip val shp))
      else if length val = 1 then Some (list_ex (\<lambda>n. int n - 1 < hd val) shp)
      else if length shp = 1 then Some (list_ex (\<lambda>v. int (hd shp) - 1 < v) val)
      else None)"

definition spot_oob :: "nat list \<Rightarrow> int list list \<Rightarrow> error + int list list" where
  "spot_oob shp spot_yxz =
     (if list_ex (\<lambda>val. val = [] \<or> (\<not> min_list val < 0 \<and> exceeds val shp = None)) spot_yxz
      then Inl ValueError
      else Inr [val \<leftarrow> spot_yxz. min_list val < 0 \<or> exceeds val shp = Some True])"

text \<open>
  Reading the filtered image at the spots, through the first \<open>image.ndim\<close> columns of
  \<open>spot_yxz\<close>; a column that is not there raises \<open>IndexError\<close>.
\<close>

definition at_spots :: "int ndarray \<Rightarrow> int list list \<Rightarrow> error + int list" where
  "at_spots a spot_yxz =
     (if list_ex (\<lambda>val. length val < ndim a) spot_yxz then Inl IndexError
      else Inr (map (\<lambda>val. item a (take (ndim a) val)) spot_yxz))"

text \<open>
  \<^verbatim>\<open>count_spot_neighbours(image, spot_yxz, pos_filter, neg_filter)\<close>. The conditions
  of the corrections are built as lists before \<open>all\<close> looks at them, so the maximum
  over the last column of an empty \<open>spot_yxz\<close> raises whatever the shapes are, and so
  does the last length of the shape of an array without axes. A list of spots stands
  for an array of as many columns as its first spot has coordinates, an empty list for
  one that has a column.
\<close>

definition count_spot_neighbours ::
  "real ndarray \<Rightarrow> int list list \<Rightarrow> int ndarray \<Rightarrow> int ndarray option
     \<Rightarrow> error + int list \<times> int list option" where
  "count_spot_neighbours img0 spot_yxz0 pos_filter0 neg_filter0 =
     (if spot_yxz0 = [] then Inl ValueError
      else if hd spot_yxz0 = [] then Inl IndexError
      else if shape img0 = [] then Inl IndexError
      else if shape pos_filter0 = [] then Inl IndexError
      else if (case neg_filter0 of None \<Rightarrow> False | Some nf \<Rightarrow> shape nf = []) then Inl IndexError
      else
        let spot_yxz = correct_spots img0 spot_yxz0;
            img = correct_image img0 spot_yxz;
            pos_filter = correct_filter img pos_filter0;
            neg_filter = map_option (correct_filter img) neg_filter0
        in if (case neg_filter of None \<Rightarrow> False | Some nf \<Rightarrow> \<not> isin01 nf) then Inl ValueError
           else if \<not> isin01 pos_filter then Inl ValueError
           else
             (case spot_oob (shape img) spot_yxz of
                Inl e \<Rightarrow> Inl e
              | Inr (val # _) \<Rightarrow>
                  Inl (OutOfBoundsError ''spot_yxz'' val
                         (replicate (ndim img) 0) (map (\<lambda>n. int n - 1) (shape img)))
              | Inr [] \<Rightarrow>
                  (case fit_filter (pos_image_of img) pos_filter of
                     Inl e \<Rightarrow> Inl e
                   | Inr pf \<Rightarrow>
                  (case imfilter (pos_image_of img) pf 0 ''corr'' of
                     Inl e \<Rightarrow> Inl e
                   | Inr pos_neighbour_image \<Rightarrow>
                  (case at_spots pos_neighbour_image spot_yxz of
                     Inl e \<Rightarrow> Inl e
                   | Inr n_pos_neighbours \<Rightarrow>
                       (case neg_filter of
                          None \<Rightarrow> Inr (n_pos_neighbours, None)
                        | Some nf \<Rightarrow>
                            (case fit_filter (neg_image_of img) nf of
                               Inl e \<Rightarrow> Inl e
                             | Inr nf' \<Rightarrow>
                            (case imfilter (neg_image_of img) nf' 0 ''corr'' of
                               Inl e \<Rightarrow> Inl e
                             | Inr neg_neighbour_image \<Rightarrow>
                            (case at_spots neg_neighbour_image spot_yxz of
                               Inl e \<Rightarrow> Inl e
                             | Inr n_neg_neighbours \<Rightarrow>
                                 Inr (n_pos_neighbours, Some n_neg_neighbours))))))))))"

section \<open>The cropped coefficient image (\<^verbatim>\<open>omp/spots.py\<close>, \<^verbatim>\<open>cropped_coef_image\<close>)\<close>

text \<open>
  One gene's column of the coefficient matrix, in sparse (\<open>csr_matrix\<close>) or in dense
  form. The sparse form selects the rows of \<open>pixel_yxz\<close> by the indices of its
  non-zero entries, the dense form by a boolean mask, which must be as long as
  \<open>pixel_yxz\<close>.
\<close>

datatype coef_column = Csr "real list" | Dense "real list"

type_synonym yxz = "int \<times> int \<times> int"

fun nz_select :: "yxz list \<Rightarrow> coef_column \<Rightarrow> error + (yxz \<times> real) list" where
  "nz_select pixel_yxz (Csr cs) =
     (let nz_ind = [i \<leftarrow> [0..<length cs]. cs ! i \<noteq> 0]
      in if list_ex (\<lambda>i. length pixel_yxz \<le> i) nz_ind then Inl IndexError
         else Inr (map (\<lambda>i. (pixel_yxz ! i, cs ! i)) nz_ind))"
| "nz_select pixel_yxz (Dense cs) =
     (if length cs \<noteq> length pixel_yxz then Inl IndexError
      else Inr (map (\<lambda>i. (pixel_yxz ! i, cs ! i)) [i \<leftarrow> [0..<length cs]. cs ! i \<noteq> 0]))"

definition yxz_sub :: "yxz \<Rightarrow> yxz \<Rightarrow> yxz" where
  "yxz_sub a b = (fst a - fst b, fst (snd a) - fst (snd b), snd (snd a) - snd (snd b))"

definition yxz_list :: "yxz \<Rightarrow> int list" where
  "yxz_list a = [fst a, fst (snd a), snd (snd a)]"

definition min_axis0 :: "yxz list \<Rightarrow> yxz" where
  "min_axis0 ps =
     (min_list (map fst ps), min_list (map (fst \<circ> snd) ps), min_list (map (snd \<circ> snd) ps))"

definition max_axis0 :: "yxz list \<Rightarrow> yxz" where
  "max_axis0 ps =
     (max_list (map fst ps), max_list (map (fst \<circ> snd) ps), max_list (map (snd \<circ> snd) ps))"

text \<open>
  The pipeline hands \<open>pixel_yxz\<close> over as an array of 16-bit integers
  (\<^verbatim>\<open>pipeline/omp.py\<close>: \<^verbatim>\<open>np.zeros((0, 3), dtype=np.int16)\<close>, with the comment that
  the largest coordinate is around 2048). The coordinates are integers here, and the
  subtraction of the shift and the addition of one, which numpy does in 16 bits, wrap.
\<close>

definition wrap16 :: "int \<Rightarrow> int" where
  "wrap16 v = (v + 32768) mod 65536 - 32768"

definition yxz_sub16 :: "yxz \<Rightarrow> yxz \<Rightarrow> yxz" where
  "yxz_sub16 a b =
     (wrap16 (fst a - fst b), wrap16 (fst (snd a) - fst (snd b)),
      wrap16 (snd (snd a) - snd (snd b)))"

text \<open>
  Assignment through index arrays: the values are stored one after the other. An index
  below zero counts from the end of its axis; an index outside \<open>[-n, n)\<close> raises
  \<open>IndexError\<close>.
\<close>

definition scatter :: "'a ndarray \<Rightarrow> (int list \<times> 'a) list \<Rightarrow> 'a ndarray" where
  "scatter a assignments =
     fold (\<lambda>(idx, v) b. NDArray (shape b) ((item b)(idx := v))) assignments a"

definition valid_index :: "nat list \<Rightarrow> int list \<Rightarrow> bool" where
  "valid_index shp idx = list_all2 (\<lambda>i n. - int n \<le> i \<and> i < int n) idx shp"

definition from_end :: "nat list \<Rightarrow> int list \<Rightarrow> int list" where
  "from_end shp idx = map2 (\<lambda>i n. if i < 0 then i + int n else i) idx shp"

definition assign_at :: "'a ndarray \<Rightarrow> (int list \<times> 'a) list \<Rightarrow> error + 'a ndarray" where
  "assign_at a assignments =
     (if list_ex (\<lambda>(idx, v). \<not> valid_index (shape a) idx) assignments then Inl IndexError
      else Inr (scatter a (map (\<lambda>(idx, v). (from_end (shape a) idx, v)) assignments)))"

text \<open>\<open>np.zeros\<close> refuses a negative length.\<close>

definition zeros_of :: "int list \<Rightarrow> error + real ndarray" where
  "zeros_of dims = (if list_ex (\<lambda>n. n < 0) dims then Inl ValueError
                    else Inr (np_zeros (map nat dims)))"

definition cropped_coef_image :: "yxz list \<Rightarrow> coef_column \<Rightarrow> error + real ndarray \<times> yxz" where
  "cropped_coef_image pixel_yxz pixel_coefs =
     (case nz_select pixel_yxz pixel_coefs of
        Inl e \<Rightarrow> Inl e
      | Inr nz \<Rightarrow>
          if nz = [] then Inl ValueError
          else
            let coord_shift = min_axis0 (map fst nz);
                nz_pixel_yxz = map (\<lambda>(p, c). (yxz_sub16 p coord_shift, c)) nz;
                mx = max_axis0 (map fst nz_pixel_yxz);
                n_y = wrap16 (fst mx + 1);
                n_x = wrap16 (fst (snd mx) + 1);
                n_z = wrap16 (snd (snd mx) + 1)
            in if n_z = 1 then
                 (case zeros_of [n_y, n_x] of
                    Inl e \<Rightarrow> Inl e
                  | Inr z \<Rightarrow>
                      (case assign_at z (map (\<lambda>(p, c). (take 2 (yxz_list p), c)) nz_pixel_yxz) of
                         Inl e \<Rightarrow> Inl e
                       | Inr coef_image \<Rightarrow> Inr (coef_image, coord_shift)))
               else
                 (case zeros_of [n_y, n_x, n_z] of
                    Inl e \<Rightarrow> Inl e
                  | Inr z \<Rightarrow>
                      (case assign_at z (map (\<lambda>(p, c). (yxz_list p, c)) nz_pixel_yxz) of
                         Inl e \<Rightarrow> Inl e
                       | Inr coef_image \<Rightarrow> Inr (coef_image, coord_shift))))"

text \<open>
  The repetition counts of \<^verbatim>\<open>Strel.disk(3, 4)\<close>: there \<open>k\<close> is about 1.19, so a
  line along an axis is repeated once and a diagonal line (norm about 1.41) not at all.
\<close>

definition rp_r3_n4 :: "int \<Rightarrow> int \<Rightarrow> int \<times> int \<Rightarrow> int" where
  "rp_r3_n4 r n v = (if v = (1, 0) \<or> v = (0, 1) then 1 else 0)"

definition coefs_of :: "coef_column \<Rightarrow> real list" where
  "coefs_of col = (case col of Csr cs \<Rightarrow> cs | Dense cs \<Rightarrow> cs)"

section \<open>Detecting spots (\<^verbatim>\<open>omp/spots.py\<close>, \<^verbatim>\<open>get_spots\<close>)\<close>

text \<open>
  The coefficient matrix \<open>pixel_coefs\<close>, \<open>n_pixels\<close> by \<open>n_genes\<close>, sparse or dense:
  its rows, each of length \<open>n_genes\<close>. \<open>pixel_coefs[:, g]\<close> is a column of the same kind.
\<close>

record coef_matrix =
  sparse :: bool
  n_genes :: nat
  rows :: "real list list"

definition n_pixels :: "coef_matrix \<Rightarrow> nat" where
  "n_pixels m = length (rows m)"

definition column :: "coef_matrix \<Rightarrow> nat \<Rightarrow> coef_column" where
  "column m g =
     (if sparse m then Csr (map (\<lambda>r. r ! g) (rows m)) else Dense (map (\<lambda>r. r ! g) (rows m)))"

text \<open>
  \<^verbatim>\<open>utils.errors.check_shape(pixel_yxz, [n_pixels, 3])\<close>: a location is a triple here, so
  only the number of rows can differ.
\<close>

definition check_shape :: "'a list \<Rightarrow> nat \<Rightarrow> bool" where
  "check_shape arr n = (length arr = n)"

definition count_eq :: "int ndarray \<Rightarrow> int \<Rightarrow> nat" where
  "count_eq a v = length [j \<leftarrow> indices (shape a). item a j = v]"

definition pos_filter_of :: "int ndarray \<Rightarrow> int ndarray" where
  "pos_filter_of spot_shape = NDArray (shape spot_shape) (\<lambda>i. if 0 < item spot_shape i then 1 else 0)"

definition neg_filter_of :: "int ndarray \<Rightarrow> int ndarray" where
  "neg_filter_of spot_shape = NDArray (shape spot_shape) (\<lambda>i. if item spot_shape i < 0 then 1 else 0)"

text \<open>
  The check of the spots handed in as \<open>spot_yxzg\<close> (rows \<open>[y, x, z, gene]\<close>). The random
  choice of at most 500 of them is the list \<open>spots_to_check\<close> of their indices.
  \<open>numpy_indexed.indices\<close> finds each location among \<open>pixel_yxz\<close> and raises
  \<open>KeyError\<close> for one that is not there; a gene index may count from the end. The
  choice among no spots is an empty array of floats, which is no index:
  \<open>IndexError\<close>.
\<close>

fun index_of :: "'a list \<Rightarrow> 'a \<Rightarrow> nat option" where
  "index_of [] x = None"
| "index_of (y # ys) x = (if y = x then Some 0 else map_option Suc (index_of ys x))"

definition row_yxz :: "int list \<Rightarrow> yxz" where
  "row_yxz s = (s ! 0, s ! 1, s ! 2)"

definition real_min_list :: "real list \<Rightarrow> real" where
  "real_min_list xs = fold min (tl xs) (hd xs)"

definition check_spot_coefs ::
  "coef_matrix \<Rightarrow> yxz list \<Rightarrow> real \<Rightarrow> int list list \<Rightarrow> nat list \<Rightarrow> error + unit" where
  "check_spot_coefs pixel_coefs pixel_yxz coef_thresh spot_yxzg spots_to_check =
     (let checked = map (\<lambda>i. spot_yxzg ! i) spots_to_check;
          pixel_index = map (\<lambda>s. index_of pixel_yxz (row_yxz s)) checked;
          ng = int (n_genes pixel_coefs)
      in if list_ex (\<lambda>p. p = None) pixel_index then Inl KeyError
         else if list_ex (\<lambda>s. s ! 3 < - ng \<or> ng \<le> s ! 3) checked then Inl IndexError
         else
           let spot_coefs_check =
                 map2 (\<lambda>p s. rows pixel_coefs ! the p ! nat (s ! 3 mod ng)) pixel_index checked
           in if spot_coefs_check = [] then Inl IndexError
              else if real_min_list spot_coefs_check \<le> coef_thresh then Inl ValueError
              else Inr ())"

text \<open>
  One row of \<open>spot_info_g\<close>: the spot, with a zero for a missing \<open>z\<close>, shifted back by
  \<open>coord_shift\<close>, then the gene and, with a spot shape, the two counts.
\<close>

definition spot_row :: "yxz \<Rightarrow> nat \<Rightarrow> int list \<Rightarrow> int list \<Rightarrow> int list" where
  "spot_row coord_shift g s counts =
     vadd (take 3 (s @ replicate 3 0)) (yxz_list coord_shift) @ [int g] @ counts"

text \<open>
  The body of the loop over the genes. \<^verbatim>\<open>find_spots.detect_spots\<close> is not among the
  sources: it is the parameter \<open>detect_spots\<close>, which returns the local maxima of the
  image as rows of as many coordinates as the image has axes. Writing the kept spots
  into the first \<open>coef_image.ndim\<close> columns needs spots of that many coordinates.
\<close>

definition gene_spots ::
  "(real ndarray \<Rightarrow> real \<Rightarrow> int \<Rightarrow> int option \<Rightarrow> error + int list list)
     \<Rightarrow> coef_matrix \<Rightarrow> yxz list \<Rightarrow> int \<Rightarrow> int option \<Rightarrow> real
     \<Rightarrow> (int ndarray \<times> int ndarray) option \<Rightarrow> int \<Rightarrow> int list list option \<Rightarrow> nat
     \<Rightarrow> error + int list list" where
  "gene_spots detect_spots pixel_coefs pixel_yxz radius_xy radius_z coef_thresh filters
       pos_neighbour_thresh spot_yxzg g =
     (case cropped_coef_image pixel_yxz (column pixel_coefs g) of
        Inl e \<Rightarrow> Inl e
      | Inr (coef_image, coord_shift) \<Rightarrow>
          (case (case spot_yxzg of
                   None \<Rightarrow> detect_spots coef_image coef_thresh radius_xy radius_z
                 | Some sp \<Rightarrow>
                     Inr [vsub (take 3 s) (yxz_list coord_shift). s \<leftarrow> sp, s ! 3 = int g]) of
             Inl e \<Rightarrow> Inl e
           | Inr spot_yxz \<Rightarrow>
               if spot_yxz = [] then Inr []
               else
                 (case filters of
                    None \<Rightarrow>
                      if list_ex (\<lambda>s. length s \<noteq> ndim coef_image) spot_yxz then Inl ValueError
                      else Inr (map (\<lambda>s. spot_row coord_shift g s []) spot_yxz)
                  | Some (pos_filter, neg_filter) \<Rightarrow>
                      (case count_spot_neighbours coef_image spot_yxz pos_filter
                              (Some neg_filter) of
                         Inl e \<Rightarrow> Inl e
                       | Inr (n_pos_neighb, n_neg) \<Rightarrow>
                           let n_neg_neighb = (case n_neg of None \<Rightarrow> [] | Some nn \<Rightarrow> nn);
                               kept = [(s, p, n) \<leftarrow> zip spot_yxz (zip n_pos_neighb n_neg_neighb).
                                         pos_neighbour_thresh < p]
                           in if list_ex (\<lambda>s. length s \<noteq> ndim coef_image) spot_yxz
                              then Inl ValueError
                              else Inr (map (\<lambda>(s, p, n). spot_row coord_shift g s [p, n])
                                          kept)))))"

fun gene_loop ::
  "(nat \<Rightarrow> error + int list list) \<Rightarrow> nat list \<Rightarrow> int list list \<Rightarrow> error + int list list" where
  "gene_loop body [] spot_info = Inr spot_info"
| "gene_loop body (g # gs) spot_info =
     (case body g of
        Inl e \<Rightarrow> Inl e
      | Inr spot_info_g \<Rightarrow> gene_loop body gs (spot_info @ spot_info_g))"

text \<open>
  \<^verbatim>\<open>get_spots\<close>. The result is the table \<open>spot_info\<close> cut into its columns: the
  locations, the genes and, with a spot shape, the numbers of positive and of negative
  neighbours.
\<close>

definition get_spots ::
  "(real ndarray \<Rightarrow> real \<Rightarrow> int \<Rightarrow> int option \<Rightarrow> error + int list list)
     \<Rightarrow> coef_matrix \<Rightarrow> yxz list \<Rightarrow> int \<Rightarrow> int option \<Rightarrow> real
     \<Rightarrow> int ndarray option \<Rightarrow> int \<Rightarrow> (int list list \<times> nat list) option
     \<Rightarrow> error + int list list \<times> int list \<times> (int list \<times> int list) option" where
  "get_spots detect_spots pixel_coefs pixel_yxz radius_xy radius_z coef_thresh spot_shape
       pos_neighbour_thresh spot_yxzg =
     (if \<not> check_shape pixel_yxz (n_pixels pixel_coefs) then Inl ShapeError
      else
        (case (case spot_shape of
                 None \<Rightarrow> Inr None
               | Some sh \<Rightarrow>
                   if count_eq sh 1 = 0 then Inl ValueError
                   else if count_eq sh (- 1) = 0 then Inl ValueError
                   else if pos_neighbour_thresh < 0
                            \<or> np_sum (pos_filter_of sh) \<le> pos_neighbour_thresh
                   then Inl (OutOfBoundsError ''pos_neighbour_thresh'' [pos_neighbour_thresh]
                               [0] [np_sum (pos_filter_of sh) - 1])
                   else Inr (Some (pos_filter_of sh, neg_filter_of sh))) of
           Inl e \<Rightarrow> Inl e
         | Inr filters \<Rightarrow>
             (case (case spot_yxzg of
                      None \<Rightarrow> Inr ()
                    | Some (sp, spots_to_check) \<Rightarrow>
                        check_spot_coefs pixel_coefs pixel_yxz coef_thresh sp spots_to_check) of
                Inl e \<Rightarrow> Inl e
              | Inr _ \<Rightarrow>
                  (case gene_loop
                          (gene_spots detect_spots pixel_coefs pixel_yxz radius_xy radius_z
                             coef_thresh filters pos_neighbour_thresh (map_option fst spot_yxzg))
                          [0..<n_genes pixel_coefs] [] of
                     Inl e \<Rightarrow> Inl e
                   | Inr spot_info \<Rightarrow>
                       Inr (map (take 3) spot_info, map (\<lambda>r. r ! 3) spot_info,
                            (case spot_shape of
                               None \<Rightarrow> None
                             | Some _ \<Rightarrow>
                                 Some (map (\<lambda>r. r ! 4) spot_info,
                                       map (\<lambda>r. r ! 5) spot_info)))))))"

text \<open>
  A stand-in for \<open>detect_spots\<close> in the examples: every pixel of the image above the
  threshold (the local maxima for a radius of zero).
\<close>

definition detect_above ::
  "real ndarray \<Rightarrow> real \<Rightarrow> int \<Rightarrow> int option \<Rightarrow> error + int list list" where
  "detect_above img thresh radius_xy radius_z =
     Inr [j \<leftarrow> indices (shape img). thresh < item img j]"

text \<open>
  The pixels the pipeline keeps (\<^verbatim>\<open>pipeline/omp.py\<close>, \<^verbatim>\<open>call_spots_omp\<close>): those
  whose largest absolute coefficient over the genes is positive.
\<close>

definition keep_pixels :: "real list list \<Rightarrow> nat list" where
  "keep_pixels pixel_coefs_tz =
     [i \<leftarrow> [0..<length pixel_coefs_tz]. list_ex (\<lambda>c. 0 < \<bar>c\<bar>) (pixel_coefs_tz ! i)]"

section \<open>Learning the spot shape (\<^verbatim>\<open>omp/spots.py\<close>, \<^verbatim>\<open>spot_neighbourhood\<close>)\<close>

text \<open>
  \<^verbatim>\<open>np.ceil(np.sqrt(pos_neighbour_thresh))\<close> for a threshold that is a natural
  number: the least \<open>k\<close> with \<open>k\<^sup>2\<close> at least the threshold.
\<close>

definition ceil_sqrt :: "nat \<Rightarrow> nat" where
  "ceil_sqrt n = (case find (\<lambda>k. n \<le> k * k) [0..<Suc n] of None \<Rightarrow> n | Some k \<Rightarrow> k)"

text \<open>
  The filter of the pixels expected positive: the whole middle plane and, with three
  planes, the centre pixel of the plane below and of the plane above.
\<close>

definition make_pos_filter :: "nat \<Rightarrow> int \<Rightarrow> int ndarray" where
  "make_pos_filter pos_neighbour_thresh n_z =
     (let s = ceil_sqrt pos_neighbour_thresh;
          pos_filter_shape_yx = (if s mod 2 = 0 then s + 1 else s);
          pos_filter_shape_z = (if n_z \<le> 2 then 1 else (3::nat));
          mid_yx = int (pos_filter_shape_yx div 2)
      in NDArray [pos_filter_shape_yx, pos_filter_shape_yx, pos_filter_shape_z]
           (\<lambda>idx. if idx ! 2 = int (pos_filter_shape_z div 2) then 1
                  else if pos_filter_shape_z = 3 \<and> idx ! 0 = mid_yx \<and> idx ! 1 = mid_yx
                          \<and> (idx ! 2 = 0 \<or> idx ! 2 = 2) then 1
                  else 0))"

definition sign_image :: "real ndarray \<Rightarrow> real ndarray" where
  "sign_image a = NDArray (shape a) (\<lambda>i. sgn (item a i))"

text \<open>
  \<open>use[np.where(use)[0][np.invert(g_use)]] = False\<close>: the spots of the gene keep their
  mark only where \<open>g_use\<close> holds.
\<close>

fun restrict_use :: "bool list \<Rightarrow> bool list \<Rightarrow> bool list" where
  "restrict_use [] g_use = []"
| "restrict_use (False # us) g_use = False # restrict_use us g_use"
| "restrict_use (True # us) [] = True # restrict_use us []"
| "restrict_use (True # us) (k # g_use) = k # restrict_use us g_use"

text \<open>
  The spots of gene \<open>g\<close> that are used: those assigned to the gene whose number of
  positive neighbours under \<open>pos_filter\<close> is the sum of \<open>pos_filter\<close>. No image is
  built for a gene without spots.
\<close>

definition gene_use ::
  "coef_matrix \<Rightarrow> yxz list \<Rightarrow> yxz list \<Rightarrow> int list \<Rightarrow> int ndarray \<Rightarrow> nat
     \<Rightarrow> error + bool list \<times> (real ndarray \<times> int list list) option" where
  "gene_use pixel_coefs pixel_yxz spot_yxz spot_gene_no pos_filter g =
     (let use0 = map (\<lambda>gn. gn = int g) spot_gene_no in
      if \<not> list_ex (\<lambda>u. u) use0 then Inr (use0, None)
      else
        (case cropped_coef_image pixel_yxz (column pixel_coefs g) of
           Inl e \<Rightarrow> Inl e
         | Inr (coef_image, coord_shift) \<Rightarrow>
             let coef_sign_image = sign_image coef_image;
                 g_spot_yxz = [yxz_list (yxz_sub s coord_shift). (s, u) \<leftarrow> zip spot_yxz use0, u]
             in (case count_spot_neighbours coef_sign_image g_spot_yxz pos_filter None of
                   Inl e \<Rightarrow> Inl e
                 | Inr (n_pos_neighb, _) \<Rightarrow>
                     let g_use = map (\<lambda>n. n = np_sum pos_filter) n_pos_neighb
                     in Inr (restrict_use use0 g_use,
                             Some (coef_sign_image,
                                   [s. (s, k) \<leftarrow> zip g_spot_yxz g_use, k])))))"

text \<open>\<open>arr[mask] = vals\<close>: the marked places take the values in turn.\<close>

fun assign_where :: "'a list \<Rightarrow> bool list \<Rightarrow> 'a list \<Rightarrow> 'a list" where
  "assign_where [] msk vals = []"
| "assign_where (a # arr) [] vals = a # arr"
| "assign_where (a # arr) (False # msk) vals = a # assign_where arr msk vals"
| "assign_where (a # arr) (True # msk) [] = a # assign_where arr msk []"
| "assign_where (a # arr) (True # msk) (v # vals) = v # assign_where arr msk vals"

text \<open>
  The loop over the genes, on the pair of \<open>spot_images\<close> and \<open>spots_used\<close>.
  \<^verbatim>\<open>get_spot_images\<close> (of \<^verbatim>\<open>extract/deconvolution.py\<close>, not among the sources) is the
  parameter \<open>get_spot_images\<close>: the images around the given spots after
  \<open>nan_to_num\<close> and the conversion to integers.
\<close>

fun used_loop ::
  "(real ndarray \<Rightarrow> int list list \<Rightarrow> nat list \<Rightarrow> int ndarray list)
     \<Rightarrow> coef_matrix \<Rightarrow> yxz list \<Rightarrow> yxz list \<Rightarrow> int list \<Rightarrow> int ndarray \<Rightarrow> nat list
     \<Rightarrow> nat list \<Rightarrow> int ndarray list \<times> bool list \<Rightarrow> error + int ndarray list \<times> bool list" where
  "used_loop get_spot_images pixel_coefs pixel_yxz spot_yxz spot_gene_no pos_filter max_size
       [] st = Inr st"
| "used_loop get_spot_images pixel_coefs pixel_yxz spot_yxz spot_gene_no pos_filter max_size
       (g # gs) (spot_images, spots_used) =
     (case gene_use pixel_coefs pixel_yxz spot_yxz spot_gene_no pos_filter g of
        Inl e \<Rightarrow> Inl e
      | Inr (use, None) \<Rightarrow>
          used_loop get_spot_images pixel_coefs pixel_yxz spot_yxz spot_gene_no pos_filter
            max_size gs (spot_images, spots_used)
      | Inr (use, Some (coef_sign_image, g_spot_used)) \<Rightarrow>
          used_loop get_spot_images pixel_coefs pixel_yxz spot_yxz spot_gene_no pos_filter
            max_size gs
            (if list_ex (\<lambda>u. u) use
             then (assign_where spot_images use
                     (get_spot_images coef_sign_image g_spot_used max_size),
                   map2 (\<lambda>u d. u \<or> d) use spots_used)
             else (spot_images, spots_used)))"

text \<open>
  \<^verbatim>\<open>spot_neighbourhood\<close> up to the choice of the spots and of their images (the
  isolation test, the average and its thresholding follow in the source and work on
  these spots only): the marks \<open>spots_used\<close> and the images \<open>spot_images[spots_used]\<close>.
  The number of planes \<open>n_z\<close> is computed in the 16 bits of \<open>pixel_yxz\<close>, and
  \<open>max_size[2] = 1\<close> needs a \<open>max_size\<close> of three lengths.
\<close>

definition spot_neighbourhood ::
  "(real ndarray \<Rightarrow> int list list \<Rightarrow> nat list \<Rightarrow> int ndarray list)
     \<Rightarrow> coef_matrix \<Rightarrow> yxz list \<Rightarrow> yxz list \<Rightarrow> int list \<Rightarrow> nat list \<Rightarrow> nat
     \<Rightarrow> error + bool list \<times> int ndarray list" where
  "spot_neighbourhood get_spot_images pixel_coefs pixel_yxz spot_yxz spot_gene_no max_size0
       pos_neighbour_thresh =
     (if \<not> check_shape pixel_yxz (n_pixels pixel_coefs) then Inl ShapeError
      else if \<not> check_shape spot_yxz (length spot_gene_no) then Inl ShapeError
      else if pixel_yxz = [] then Inl ValueError
      else if wrap16 (snd (snd (max_axis0 pixel_yxz)) + 1) = 1 \<and> length max_size0 < 3
      then Inl IndexError
      else
        let n_z = wrap16 (snd (snd (max_axis0 pixel_yxz)) + 1);
            pos_filter = make_pos_filter pos_neighbour_thresh n_z;
            max_size1 = (if n_z = 1 then max_size0[2 := 1] else max_size0);
            max_size = map (\<lambda>m. if m mod 2 = 0 then m + 1 else m) max_size1
        in (case used_loop get_spot_images pixel_coefs pixel_yxz spot_yxz spot_gene_no
                   pos_filter max_size [0..<n_genes pixel_coefs]
                   (replicate (length spot_gene_no) (np_zeros max_size),
                    replicate (length spot_gene_no) False) of
              Inl e \<Rightarrow> Inl e
            | Inr (spot_images, spots_used) \<Rightarrow>
                if \<not> list_ex (\<lambda>u. u) spots_used then Inl ValueError
                else Inr (spots_used, [im. (im, u) \<leftarrow> zip spot_images spots_used, u])))"

text \<open>
  The number of positive neighbours \<open>spot_neighbourhood\<close> finds for spot \<open>s\<close>: the
  count of its gene at its place among the spots of that gene.
\<close>

definition n_pos_neighb_of ::
  "coef_matrix \<Rightarrow> yxz list \<Rightarrow> yxz list \<Rightarrow> int list \<Rightarrow> int ndarray \<Rightarrow> nat \<Rightarrow> int option" where
  "n_pos_neighb_of pixel_coefs pixel_yxz spot_yxz spot_gene_no pos_filter s =
     (let gn = spot_gene_no ! s in
      case cropped_coef_image pixel_yxz (column pixel_coefs (nat gn)) of
        Inl e \<Rightarrow> None
      | Inr (coef_image, coord_shift) \<Rightarrow>
          (case count_spot_neighbours (sign_image coef_image)
                  [yxz_list (yxz_sub p coord_shift).
                   (p, u) \<leftarrow> zip spot_yxz (map (\<lambda>k. k = gn) spot_gene_no), u]
                  pos_filter None of
             Inl e \<Rightarrow> None
           | Inr (n_pos_neighb, _) \<Rightarrow>
               Some (n_pos_neighb ! length [k \<leftarrow> take s spot_gene_no. k = gn])))"

section \<open>Duplicates between tiles (\<^verbatim>\<open>pipeline/omp.py\<close>, \<^verbatim>\<open>call_spots_omp\<close>)\<close>







section \<open>What the claims speak of\<close>

text \<open>
  The pixels with a non-zero coefficient, as pairs of location and coefficient, and the
  index of a location in the cropped image: the location minus the shift, without
  \<open>z\<close> in a two-dimensional image.
\<close>

definition nz_pairs :: "yxz list \<Rightarrow> coef_column \<Rightarrow> (yxz \<times> real) list" where
  "nz_pairs pixel_yxz col =
     map (\<lambda>i. (pixel_yxz ! i, coefs_of col ! i))
       [i \<leftarrow> [0..<length (coefs_of col)]. coefs_of col ! i \<noteq> 0]"

definition vol_index :: "'a ndarray \<Rightarrow> yxz \<Rightarrow> yxz \<Rightarrow> int list" where
  "vol_index img p coord_shift = take (ndim img) (yxz_list (yxz_sub p coord_shift))"

text \<open>
  No two of the locations are 32767 or more apart along an axis, so that the span of
  the locations plus one is a 16-bit integer: true of the coordinates of a tile, which
  are not negative and reach about 2048.
\<close>

definition span_fits :: "yxz list \<Rightarrow> bool" where
  "span_fits ps =
     list_all (\<lambda>p. list_all (\<lambda>q. fst p - fst q < 32767
                                \<and> fst (snd p) - fst (snd q) < 32767
                                \<and> snd (snd p) - snd (snd q) < 32767) ps) ps"

text \<open>
  The candidate spots of gene \<open>g\<close> when a spot shape is given: each with its location
  on the tile and its numbers of positive and of negative neighbours; \<open>None\<close> where
  the image of the gene, its spots or their counts cannot be had.
\<close>

definition spot_candidates ::
  "(real ndarray \<Rightarrow> real \<Rightarrow> int \<Rightarrow> int option \<Rightarrow> error + int list list)
     \<Rightarrow> coef_matrix \<Rightarrow> yxz list \<Rightarrow> int \<Rightarrow> int option \<Rightarrow> real
     \<Rightarrow> int ndarray \<Rightarrow> int list list option \<Rightarrow> nat
     \<Rightarrow> (int list \<times> int \<times> int) list option" where
  "spot_candidates detect_spots pixel_coefs pixel_yxz radius_xy radius_z coef_thresh spot_shape
       spot_yxzg g =
     (case cropped_coef_image pixel_yxz (column pixel_coefs g) of
        Inl e \<Rightarrow> None
      | Inr (coef_image, coord_shift) \<Rightarrow>
          (case (case spot_yxzg of
                   None \<Rightarrow> detect_spots coef_image coef_thresh radius_xy radius_z
                 | Some sp \<Rightarrow>
                     Inr [vsub (take 3 s) (yxz_list coord_shift). s \<leftarrow> sp, s ! 3 = int g]) of
             Inl e \<Rightarrow> None
           | Inr spot_yxz \<Rightarrow>
               if spot_yxz = [] then Some []
               else
                 (case count_spot_neighbours coef_image spot_yxz (pos_filter_of spot_shape)
                         (Some (neg_filter_of spot_shape)) of
                    Inl e \<Rightarrow> None
                  | Inr (n_pos, n_neg) \<Rightarrow>
                      if list_ex (\<lambda>s. length s \<noteq> ndim coef_image) spot_yxz then None
                      else Some (zip (map (\<lambda>s. vadd (take 3 (s @ replicate 3 0))
                                                  (yxz_list coord_shift)) spot_yxz)
                                   (zip n_pos (case n_neg of None \<Rightarrow> [] | Some nn \<Rightarrow> nn))))))"

text \<open>
  The spots to retain: over the genes in turn, the candidates whose number of positive
  neighbours exceeds the threshold, with the gene.
\<close>

definition retained_spots ::
  "(nat \<Rightarrow> (int list \<times> int \<times> int) list option) \<Rightarrow> nat \<Rightarrow> int
     \<Rightarrow> (int list \<times> int \<times> int \<times> int) list" where
  "retained_spots candidates n pos_neighbour_thresh =
     concat (map (\<lambda>g. case candidates g of
                         None \<Rightarrow> []
                       | Some cs \<Rightarrow>
                           map (\<lambda>(loc, p, n). (loc, int g, p, n))
                             [(loc, p, n) \<leftarrow> cs. pos_neighbour_thresh < p])
               [0..<n])"

text \<open>A spot shape of one row: negative, positive, negative.\<close>

definition shape_1x3 :: "int ndarray" where
  "shape_1x3 = NDArray [1, 3] (\<lambda>idx. if idx = [0, 1] then 1 else - 1)"

text \<open>
  An example tile: three pixels in a row with the coefficients \<open>-1, 2, -1\<close> of one
  gene.
\<close>

definition pc_ex :: coef_matrix where
  "pc_ex = \<lparr>sparse = True, n_genes = 1, rows = [[- 1], [2], [- 1]]\<rparr>"

definition py_ex :: "yxz list" where
  "py_ex = [(0, 0, 0), (0, 1, 0), (0, 2, 0)]"

text \<open>
  The footprint of a filter of shape \<open>flt_shape\<close> laid on the location \<open>s\<close> lies within
  an image of shape \<open>img_shape\<close>: along each axis, with a filter length \<open>m\<close>, it
  reaches from \<open>s - (m - 1) div 2\<close> to \<open>s + m div 2\<close>.
\<close>

definition footprint_inside :: "nat list \<Rightarrow> nat list \<Rightarrow> int list \<Rightarrow> bool" where
  "footprint_inside img_shape flt_shape s =
     list_all (\<lambda>a. 0 \<le> s ! a - int ((flt_shape ! a - 1) div 2)
                   \<and> s ! a + int (flt_shape ! a div 2) < int (img_shape ! a))
       [0..<length img_shape]"

text \<open>An example image of three by three pixels, all of the value 2.\<close>

definition img_3x3 :: "real ndarray" where
  "img_3x3 = NDArray [3, 3] (\<lambda>_. 2)"

text \<open>
  Two more example images, of five by five and of three by three by three pixels, all
  of the value 2.
\<close>

definition img_5x5 :: "real ndarray" where
  "img_5x5 = NDArray [5, 5] (\<lambda>_. 2)"

definition img_3x3x3 :: "real ndarray" where
  "img_3x3x3 = NDArray [3, 3, 3] (\<lambda>_. 2)"

text \<open>
  A stand-in for \<open>get_spot_images\<close> in the examples: an empty image for every spot.
\<close>

definition zero_spot_images :: "real ndarray \<Rightarrow> int list list \<Rightarrow> nat list \<Rightarrow> int ndarray list" where
  "zero_spot_images img spots max_size = map (\<lambda>_. np_zeros max_size) spots"

section \<open>Shapes of the structuring elements\<close>

lemma fold_max_ge: "a \<le> fold max xs (a::int)"
proof (induction xs arbitrary: a)
  case Nil
  then show ?case by simp
next
  case (Cons x xs)
  have "a \<le> max x a" by simp
  also have "\<dots> \<le> fold max xs (max x a)" by (rule Cons.IH)
  finally show ?case by simp
qed

lemma max_list_abs_nonneg: "xs \<noteq> [] \<Longrightarrow> 0 \<le> max_list (map (\<lambda>k. \<bar>f k\<bar>) xs)"
proof (cases xs)
  case Nil
  then show "xs \<noteq> [] \<Longrightarrow> ?thesis" by simp
next
  case (Cons x ys)
  have "0 \<le> \<bar>f x\<bar>" by simp
  also have "\<dots> \<le> fold max (map (\<lambda>k. \<bar>f k\<bar>) ys) \<bar>f x\<bar>" by (rule fold_max_ge)
  finally show ?thesis using Cons by (simp add: max_list_def)
qed

lemma odd_nat_2m1: "0 \<le> m \<Longrightarrow> odd (nat (2 * m + 1))"
  by (simp add: even_nat_iff)

lemma periodic_line_shape:
  assumes "0 \<le> p"
  shows "\<exists>a. periodic_line p v = Inr a \<and> all_odd (shape a) \<and> length (shape a) = 2"
proof -
  have ne: "[- p..p] \<noteq> []" using assms by simp
  then show ?thesis
    unfolding periodic_line_def Let_def all_odd_def
    by (simp add: odd_nat_2m1 max_list_abs_nonneg comp_def)
qed

lemma dilate_shape: "dilate a k = Inr b \<Longrightarrow> shape b = shape a"
  by (auto simp: dilate_def grey_dilation_def split: sum.splits)

lemma dilate_total: "\<exists>b. dilate a k = Inr b"
  by (auto simp: dilate_def ensure_odd_kernel_def Let_def split: sum.splits)

lemma dilate_all_shape: "dilate_all a l = Inr b \<Longrightarrow> shape b = shape a"
proof (induction l arbitrary: a)
  case Nil
  then show ?case by simp
next
  case (Cons x l)
  obtain rp v where x: "x = (rp, v)" by (cases x)
  from Cons.prems x obtain d a' where "dilate a d = Inr a'" "dilate_all a' l = Inr b"
    by (auto split: sum.splits)
  then show ?case using Cons.IH dilate_shape by metis
qed

lemma dilate_all_total:
  "\<forall>x \<in> set l. 0 \<le> fst x \<Longrightarrow> \<exists>b. dilate_all a l = Inr b"
proof (induction l arbitrary: a)
  case Nil
  then show ?case by simp
next
  case (Cons x l)
  obtain rp v where x: "x = (rp, v)" by (cases x)
  with Cons.prems have "0 \<le> rp" by simp
  then obtain d where d: "periodic_line rp v = Inr d" using periodic_line_shape by blast
  obtain a' where a': "dilate a d = Inr a'" using dilate_total by blast
  from Cons.IH[of a'] Cons.prems obtain b where "dilate_all a' l = Inr b" by auto
  then show ?case using x d a' by simp
qed

lemma disk_direct:
  "r < 3 \<or> n = 0 \<Longrightarrow>
   disk rp r n =
     Inr (NDArray [nat (2 * r + 1), nat (2 * r + 1)]
            (\<lambda>idx. if (idx ! 1 - r)\<^sup>2 + (idx ! 0 - r)\<^sup>2 \<le> r\<^sup>2 then 1 else 0))"
  by (auto simp: disk_def)

lemma disk_decomp_shape:
  assumes "3 \<le> r" "n = 4 \<or> n = 6 \<or> n = 8" "disk rp r n = Inr a"
  shows "shape a = [nat (2 * r - 1), nat (2 * r - 1)]"
  using assms
  by (auto simp: disk_def Let_def gt0_def cv2_dilate_def dest!: dilate_all_shape
           split: sum.splits if_splits)

lemma disk_decomp_total:
  assumes "3 \<le> r" "n = 4 \<or> n = 6 \<or> n = 8" "\<forall>v. 0 \<le> rp r n v"
  shows "\<exists>a. disk rp r n = Inr a"
proof -
  let ?l = "map (\<lambda>v. (rp r n v, v)) (basis n)"
  have "\<forall>x \<in> set ?l. 0 \<le> fst x" using assms(3) by auto
  from dilate_all_total[OF this] obtain b where
    "dilate_all (NDArray [nat (2 * r - 1), nat (2 * r - 1)]
        (\<lambda>idx. if idx = [(int (nat (2 * r - 1)) - 1) div 2, (int (nat (2 * r - 1)) - 1) div 2]
               then Val 1 else NegInf)) ?l = Inr b"
    by blast
  then show ?thesis using assms(1,2)
    by (auto simp: disk_def Let_def)
qed

lemma nat_2m1: "0 \<le> (m::int) \<Longrightarrow> nat (2 * m + 1) = 2 * nat m + 1"
  by arith

section \<open>Claims about the structuring elements\<close>

text \<open>
  C2 (as amended). \<^verbatim>\<open>Strel.disk(r, n)\<close> raises \<open>ValueError\<close> for every radius
  \<open>r \<ge> 3\<close> and every \<open>n\<close> that is not 0, 4, 6 or 8. For a radius below 3 the source
  first forces \<open>n = 0\<close>: then every \<open>n\<close> gives the mask of the direct computation and
  no error.
\<close>

theorem disk_decomposition_order:
  "(3 \<le> r \<and> n \<noteq> 0 \<and> n \<noteq> 4 \<and> n \<noteq> 6 \<and> n \<noteq> 8 \<longrightarrow> disk rp r n = Inl ValueError)
   \<and> (r < 3 \<longrightarrow> disk rp r n = disk rp r 0 \<and> \<not> isl (disk rp r n))"
  by (auto simp: disk_def)

theorem disk_decomposition_order_witness:
  "disk rp_r3_n4 3 5 = Inl ValueError
   \<and> disk rp_r3_n4 2 5 = disk rp_r3_n4 2 0 \<and> \<not> isl (disk rp_r3_n4 2 5)"
  using disk_decomposition_order [of 3 5 rp_r3_n4] disk_decomposition_order [of 2 5 rp_r3_n4]
  by auto

text \<open>
  C2 as stated fails: with radius 2 and \<open>n = 5\<close>, which is not 0, 4, 6 or 8, the
  function returns the mask it returns for \<open>n = 0\<close>.
\<close>

theorem disk_small_radius_counterexample:
  "disk rp_r3_n4 2 5 \<noteq> Inl ValueError \<and> disk rp_r3_n4 2 5 = disk rp_r3_n4 2 0"
  by (simp add: disk_def)

text \<open>
  C8. For an inner radius \<open>0 \<le> r0 < r_xy\<close> whose squares, and the outer radius's,
  the source computes exactly (\<open>fsq r = r\<^sup>2\<close> for both), the two-dimensional annulus
  contains the integer point \<open>(y, x)\<close>, counted from the centre of the mask, exactly
  when its distance from the centre lies in \<open>(r0, r_xy]\<close>, that is exactly when
  \<open>r0\<^sup>2 < y\<^sup>2 + x\<^sup>2 \<le> r_xy\<^sup>2\<close>. So no point at squared distance at most \<open>r0\<^sup>2\<close> is in
  the mask, and every point at a distance in \<open>(r0, r_xy]\<close> is.
\<close>

theorem annulus_2d_members:
  fixes r0 r_xy :: real and y x :: int
  assumes "0 \<le> r0" "r0 < r_xy"
    and exact: "fsq r0 = r0\<^sup>2" "fsq r_xy = r_xy\<^sup>2"
  shows "(mask_contains (annulus fsq r0 r_xy None) [y, x]
            \<longleftrightarrow> r0 < sqrt (of_int (y\<^sup>2 + x\<^sup>2)) \<and> sqrt (of_int (y\<^sup>2 + x\<^sup>2)) \<le> r_xy)
       \<and> (mask_contains (annulus fsq r0 r_xy None) [y, x]
            \<longleftrightarrow> r0\<^sup>2 < of_int (y\<^sup>2 + x\<^sup>2) \<and> of_int (y\<^sup>2 + x\<^sup>2) \<le> r_xy\<^sup>2)"
proof -
  let ?R = "\<lfloor>r_xy\<rfloor>"
  let ?m = "of_int (y\<^sup>2 + x\<^sup>2) :: real"
  have R0: "0 \<le> ?R" using assms by simp
  have cen: "centre [nat (2 * ?R + 1), nat (2 * ?R + 1)] = [?R, ?R]"
  proof -
    have "nat (2 * ?R + 1) = 2 * nat ?R + 1" using R0 by (rule nat_2m1)
    then show ?thesis using R0 by (simp add: centre_def del: zero_le_floor)
  qed
  have mc: "mask_contains (annulus fsq r0 r_xy None) [y, x] \<longleftrightarrow>
        (\<bar>y\<bar> \<le> ?R \<and> \<bar>x\<bar> \<le> ?R \<and> ?m \<le> r_xy\<^sup>2 \<and> r0\<^sup>2 < ?m)"
    unfolding mask_contains_def annulus_def Let_def exact
    using R0 by (auto simp: cen vadd_def in_bounds_def)
  have inside: "\<bar>y\<bar> \<le> ?R \<and> \<bar>x\<bar> \<le> ?R" if m: "?m \<le> r_xy\<^sup>2"
  proof -
    have "(of_int y)\<^sup>2 \<le> ?m" "(of_int x)\<^sup>2 \<le> ?m" by simp_all
    then have "(of_int y :: real)\<^sup>2 \<le> r_xy\<^sup>2" "(of_int x :: real)\<^sup>2 \<le> r_xy\<^sup>2"
      using m by linarith+
    then have "\<bar>of_int y :: real\<bar> \<le> r_xy" "\<bar>of_int x :: real\<bar> \<le> r_xy"
      using assms(1,2) by (simp_all add: abs_le_square_iff[symmetric])
    then have "of_int \<bar>y\<bar> \<le> r_xy" "of_int \<bar>x\<bar> \<le> r_xy" by simp_all
    then show ?thesis by (simp add: le_floor_iff)
  qed
  have sq: "mask_contains (annulus fsq r0 r_xy None) [y, x] \<longleftrightarrow> r0\<^sup>2 < ?m \<and> ?m \<le> r_xy\<^sup>2"
    using mc inside by blast
  have m0: "0 \<le> ?m" by simp
  have s1: "r0 < sqrt ?m \<longleftrightarrow> r0\<^sup>2 < ?m"
    using assms(1) m0 by (metis real_less_rsqrt real_sqrt_less_iff real_sqrt_abs abs_of_nonneg)
  have s2: "sqrt ?m \<le> r_xy \<longleftrightarrow> ?m \<le> r_xy\<^sup>2"
    using assms(1,2) m0
    by (metis real_sqrt_le_iff real_sqrt_abs abs_of_nonneg less_eq_real_def order_trans)
  show ?thesis using sq s1 s2 by simp
qed

theorem annulus_2d_members_witness:
  "(0::real) \<le> 1 \<and> (1::real) < 2
   \<and> mask_contains (annulus exact_sq 1 2 None) [1, 1]
   \<and> \<not> mask_contains (annulus exact_sq 1 2 None) [0, 1]"
  using annulus_2d_members [of 1 2 exact_sq 1 1] annulus_2d_members [of 1 2 exact_sq 0 1]
  by (auto simp: exact_sq_def)

text \<open>
  C9. Every structuring element has an odd length along every axis: the periodic line
  for a repetition count \<open>p \<ge> 0\<close>; the disk for a radius \<open>r \<ge> 0\<close>, on the direct path
  (\<open>r < 3\<close> or \<open>n = 0\<close>) and on the decomposition path (\<open>r \<ge> 3\<close>, \<open>n\<close> one of 4, 6, 8,
  with non-negative repetition counts, as the floor of a positive quotient is); the
  three-dimensional disk for radii \<open>\<ge> 0\<close>; the annulus for outer radii \<open>\<ge> 0\<close>. Each of
  them is returned, not an error.
\<close>

theorem strel_shapes_odd:
  "(0 \<le> p \<longrightarrow> (\<exists>a. periodic_line p v = Inr a \<and> all_odd (shape a)))
   \<and> (0 \<le> r \<and> (r < 3 \<or> n = 0) \<longrightarrow> (\<exists>a. disk rp r n = Inr a \<and> all_odd (shape a)))
   \<and> (3 \<le> r' \<and> (n' = 4 \<or> n' = 6 \<or> n' = 8) \<and> (\<forall>v. 0 \<le> rp' r' n' v)
        \<longrightarrow> (\<exists>a. disk rp' r' n' = Inr a \<and> all_odd (shape a)))
   \<and> (0 \<le> r_xy \<and> 0 \<le> r_z \<longrightarrow> all_odd (shape (disk_3d r_xy r_z)))
   \<and> (0 \<le> s_xy \<longrightarrow> all_odd (shape (annulus sq s_in s_xy None)))
   \<and> (0 \<le> s_xy \<and> 0 \<le> s_z \<longrightarrow> all_odd (shape (annulus sq s_in s_xy (Some s_z))))"
proof (intro conjI impI)
  assume "0 \<le> p"
  then show "\<exists>a. periodic_line p v = Inr a \<and> all_odd (shape a)"
    using periodic_line_shape by blast
next
  assume "0 \<le> r \<and> (r < 3 \<or> n = 0)"
  then show "\<exists>a. disk rp r n = Inr a \<and> all_odd (shape a)"
    by (simp add: disk_direct all_odd_def odd_nat_2m1)
next
  assume a: "3 \<le> r' \<and> (n' = 4 \<or> n' = 6 \<or> n' = 8) \<and> (\<forall>v. 0 \<le> rp' r' n' v)"
  then obtain a where d: "disk rp' r' n' = Inr a" using disk_decomp_total by blast
  with a have "shape a = [nat (2 * r' - 1), nat (2 * r' - 1)]"
    using disk_decomp_shape by blast
  moreover have "odd (nat (2 * r' - 1))" using a odd_nat_2m1[of "r' - 1"] by simp
  ultimately show "\<exists>a. disk rp' r' n' = Inr a \<and> all_odd (shape a)"
    using d by (simp add: all_odd_def)
next
  assume "0 \<le> r_xy \<and> 0 \<le> r_z"
  then show "all_odd (shape (disk_3d r_xy r_z))"
    by (simp add: disk_3d_def all_odd_def odd_nat_2m1)
next
  assume "0 \<le> s_xy"
  then show "all_odd (shape (annulus sq s_in s_xy None))"
    by (simp add: annulus_def all_odd_def odd_nat_2m1 Let_def)
next
  assume "0 \<le> s_xy \<and> 0 \<le> s_z"
  then show "all_odd (shape (annulus sq s_in s_xy (Some s_z)))"
    by (simp add: annulus_def all_odd_def odd_nat_2m1 Let_def)
qed

theorem strel_shapes_odd_witness:
  "(\<exists>a. periodic_line 2 (1, - 1) = Inr a \<and> all_odd (shape a))
   \<and> (\<exists>a. disk rp_r3_n4 2 0 = Inr a \<and> all_odd (shape a))
   \<and> (\<exists>a. disk rp_r3_n4 3 4 = Inr a \<and> all_odd (shape a))
   \<and> all_odd (shape (disk_3d 2 1))
   \<and> all_odd (shape (annulus exact_sq 1 2 None))
   \<and> all_odd (shape (annulus exact_sq 1 2 (Some 1)))"
  using strel_shapes_odd [where p = 2 and v = "(1, - 1)" and r = 2 and n = 0
      and rp = rp_r3_n4 and r' = 3 and n' = 4 and rp' = rp_r3_n4 and r_xy = 2 and r_z = 1
      and s_xy = 2 and s_in = 1 and s_z = 1 and sq = exact_sq]
  by (simp add: rp_r3_n4_def)

section \<open>The cropped coefficient image\<close>

lemma min_list_Min: "xs \<noteq> [] \<Longrightarrow> min_list xs = Min (set xs)"
proof (cases xs)
  case Nil
  then show "xs \<noteq> [] \<Longrightarrow> ?thesis" by simp
next
  case (Cons a ys)
  then show ?thesis using Min.set_eq_fold[of a ys] by (simp add: min_list_def)
qed

lemma max_list_Max: "xs \<noteq> [] \<Longrightarrow> max_list xs = Max (set xs)"
proof (cases xs)
  case Nil
  then show "xs \<noteq> [] \<Longrightarrow> ?thesis" by simp
next
  case (Cons a ys)
  then show ?thesis using Max.set_eq_fold[of a ys] by (simp add: max_list_def)
qed

lemma max_list_shift:
  assumes "xs \<noteq> []"
  shows "max_list (map (\<lambda>x. f x - c) xs) = max_list (map f xs) - (c::int)"
proof -
  have "Max ((\<lambda>v. v - c) ` (f ` set xs)) = Max (f ` set xs) - c"
    using assms by (intro mono_Max_commute[symmetric]) (auto simp: mono_def)
  then show ?thesis using assms by (simp add: max_list_Max image_comp comp_def)
qed

lemma nz_select_eq:
  "length (coefs_of col) = length pixel_yxz \<Longrightarrow> nz_select pixel_yxz col = Inr (nz_pairs pixel_yxz col)"
  by (cases col) (auto simp: nz_pairs_def coefs_of_def list_ex_iff Let_def)

lemma scatter_Nil: "scatter a [] = a"
  by (simp add: scatter_def)

lemma scatter_Cons:
  "scatter a ((k, v) # as) = scatter (NDArray (shape a) ((item a)(k := v))) as"
  by (simp add: scatter_def)

lemma scatter_shape: "shape (scatter a as) = shape a"
proof (induction as arbitrary: a)
  case Nil
  then show ?case by (simp add: scatter_Nil)
next
  case (Cons x as)
  obtain k v where x: "x = (k, v)" by (cases x)
  show ?case unfolding x scatter_Cons Cons.IH by simp
qed

lemma scatter_item:
  "item (scatter a as) idx = (case map_of (rev as) idx of None \<Rightarrow> item a idx | Some v \<Rightarrow> v)"
proof (induction as arbitrary: a)
  case Nil
  then show ?case by (simp add: scatter_Nil)
next
  case (Cons x as)
  obtain k v where x: "x = (k, v)" by (cases x)
  show ?case
    unfolding x scatter_Cons Cons.IH
    by (simp add: map_add_def split: option.splits)
qed

lemma scatter_item_distinct:
  assumes "distinct (map fst as)"
  shows "(k, v) \<in> set as \<Longrightarrow> item (scatter a as) k = v"
    and "k \<notin> fst ` set as \<Longrightarrow> item (scatter a as) k = item a k"
proof -
  have d: "distinct (map fst (rev as))" using assms by (simp add: rev_map[symmetric])
  show "(k, v) \<in> set as \<Longrightarrow> item (scatter a as) k = v"
    using map_of_is_SomeI[OF d, of k v] by (simp add: scatter_item)
  show "k \<notin> fst ` set as \<Longrightarrow> item (scatter a as) k = item a k"
    using map_of_eq_None_iff[of "rev as" k] by (simp add: scatter_item)
qed

lemma min_le_all: "xs \<noteq> [] \<Longrightarrow> x \<in> set xs \<Longrightarrow> min_list xs \<le> x"
  by (simp add: min_list_Min)

lemma all_le_max: "xs \<noteq> [] \<Longrightarrow> x \<in> set xs \<Longrightarrow> x \<le> max_list xs"
  by (simp add: max_list_Max)

lemma wrap16_id: "- 32768 \<le> v \<Longrightarrow> v < 32768 \<Longrightarrow> wrap16 v = v"
  by (simp add: wrap16_def)

lemma min_list_attained: "xs \<noteq> [] \<Longrightarrow> min_list xs \<in> set xs"
  using Min_in[of "set xs"] by (simp add: min_list_Min)

lemma max_list_attained: "xs \<noteq> [] \<Longrightarrow> max_list xs \<in> set xs"
  using Max_in[of "set xs"] by (simp add: max_list_Max)

lemma span_fits_diff:
  assumes "span_fits ps" "p \<in> set ps" "q \<in> set ps"
  shows "fst p - fst q < 32767" "fst (snd p) - fst (snd q) < 32767"
    "snd (snd p) - snd (snd q) < 32767"
  using assms by (auto simp: span_fits_def list_all_iff)

lemma span_fits_shift:
  assumes f: "span_fits ps" and p: "p \<in> set ps"
  shows "0 \<le> fst p - fst (min_axis0 ps) \<and> fst p - fst (min_axis0 ps) < 32767"
    and "0 \<le> fst (snd p) - fst (snd (min_axis0 ps))
         \<and> fst (snd p) - fst (snd (min_axis0 ps)) < 32767"
    and "0 \<le> snd (snd p) - snd (snd (min_axis0 ps))
         \<and> snd (snd p) - snd (snd (min_axis0 ps)) < 32767"
proof -
  have ne: "ps \<noteq> []" using p by auto
  have a: "0 \<le> g p - min_list (map g ps) \<and> g p - min_list (map g ps) < 32767"
    if d: "\<And>q. q \<in> set ps \<Longrightarrow> g p - g q < 32767" for g :: "yxz \<Rightarrow> int"
  proof -
    have "min_list (map g ps) \<in> set (map g ps)" using ne by (intro min_list_attained) simp
    then obtain q where q: "q \<in> set ps" "min_list (map g ps) = g q" by auto
    have "min_list (map g ps) \<le> g p" using ne p by (intro min_le_all) simp_all
    then show ?thesis using d[OF q(1)] q(2) by simp
  qed
  show "0 \<le> fst p - fst (min_axis0 ps) \<and> fst p - fst (min_axis0 ps) < 32767"
    using a[of fst] span_fits_diff(1)[OF f p] by (simp add: min_axis0_def)
  show "0 \<le> fst (snd p) - fst (snd (min_axis0 ps))
         \<and> fst (snd p) - fst (snd (min_axis0 ps)) < 32767"
    using a[of "fst \<circ> snd"] span_fits_diff(2)[OF f p] by (simp add: min_axis0_def)
  show "0 \<le> snd (snd p) - snd (snd (min_axis0 ps))
         \<and> snd (snd p) - snd (snd (min_axis0 ps)) < 32767"
    using a[of "snd \<circ> snd"] span_fits_diff(3)[OF f p] by (simp add: min_axis0_def)
qed

lemma max_axis0_attained:
  assumes "ps \<noteq> []"
  shows "\<exists>p \<in> set ps. fst (max_axis0 ps) = fst p"
    and "\<exists>p \<in> set ps. fst (snd (max_axis0 ps)) = fst (snd p)"
    and "\<exists>p \<in> set ps. snd (snd (max_axis0 ps)) = snd (snd p)"
  using assms max_list_attained[of "map fst ps"] max_list_attained[of "map (fst \<circ> snd) ps"]
    max_list_attained[of "map (snd \<circ> snd) ps"]
  by (auto simp: max_axis0_def)

lemma max_axis0_ge:
  assumes "p \<in> set ps"
  shows "fst p \<le> fst (max_axis0 ps)" "fst (snd p) \<le> fst (snd (max_axis0 ps))"
    "snd (snd p) \<le> snd (snd (max_axis0 ps))"
proof -
  have ne: "ps \<noteq> []" using assms by auto
  show "fst p \<le> fst (max_axis0 ps)"
    using ne assms by (simp add: max_axis0_def all_le_max)
  show "fst (snd p) \<le> fst (snd (max_axis0 ps))"
    using ne assms all_le_max[of "map (fst \<circ> snd) ps" "fst (snd p)"]
    by (simp add: max_axis0_def)
  show "snd (snd p) \<le> snd (snd (max_axis0 ps))"
    using ne assms all_le_max[of "map (snd \<circ> snd) ps" "snd (snd p)"]
    by (simp add: max_axis0_def)
qed

lemma assign_at_in_bounds:
  assumes "\<forall>(idx, v) \<in> set as. in_bounds (shape a) idx"
  shows "assign_at a as = Inr (scatter a as)"
proof -
  have v: "valid_index (shape a) idx \<and> from_end (shape a) idx = idx"
    if "in_bounds (shape a) idx" for idx
  proof -
    have l: "length idx = length (shape a)"
      "\<forall>k<length (shape a). 0 \<le> idx ! k \<and> idx ! k < int (shape a ! k)"
      using that by (simp_all add: in_bounds_def list_all2_conv_all_nth)
    have "valid_index (shape a) idx"
      using l by (auto simp: valid_index_def list_all2_conv_all_nth intro: order_trans)
    moreover have "from_end (shape a) idx = idx"
      using l by (intro nth_equalityI) (auto simp: from_end_def)
    ultimately show ?thesis by simp
  qed
  have "\<not> list_ex (\<lambda>(idx, v). \<not> valid_index (shape a) idx) as"
    using assms v by (auto simp: list_ex_iff)
  moreover have "map (\<lambda>(idx, v). (from_end (shape a) idx, v)) as = as"
    using assms v by (intro map_idI) auto
  ultimately show ?thesis by (simp add: assign_at_def)
qed

lemma cropped_unfold:
  assumes len: "length (coefs_of col) = length pixel_yxz"
      and ne: "nz_pairs pixel_yxz col \<noteq> []"
      and fits: "span_fits (map fst (nz_pairs pixel_yxz col))"
  defines "nz \<equiv> nz_pairs pixel_yxz col"
  defines "sh \<equiv> min_axis0 (map fst nz)"
  defines "mx \<equiv> max_axis0 (map fst nz)"
  shows "cropped_coef_image pixel_yxz col =
     (if snd (snd mx) - snd (snd sh) + 1 = 1 then
        Inr (scatter (np_zeros [nat (fst mx - fst sh + 1), nat (fst (snd mx) - fst (snd sh) + 1)])
               (map (\<lambda>(p, c). (take 2 (yxz_list (yxz_sub p sh)), c)) nz), sh)
      else
        Inr (scatter (np_zeros [nat (fst mx - fst sh + 1), nat (fst (snd mx) - fst (snd sh) + 1),
                                nat (snd (snd mx) - snd (snd sh) + 1)])
               (map (\<lambda>(p, c). (yxz_list (yxz_sub p sh), c)) nz), sh))"
proof -
  have sel: "nz_select pixel_yxz col = Inr nz"
    unfolding nz_def using len by (rule nz_select_eq)
  have nne: "nz \<noteq> []" using ne by (simp add: nz_def)
  have f: "span_fits (map fst nz)" using fits by (simp add: nz_def)
  have sub: "yxz_sub16 p sh = yxz_sub p sh" if "p \<in> set (map fst nz)" for p
    using span_fits_shift[OF f that]
    by (simp add: yxz_sub16_def yxz_sub_def sh_def wrap16_id)
  have shifted: "map (\<lambda>(p, c). (yxz_sub16 p sh, c)) nz = map (\<lambda>(p, c). (yxz_sub p sh, c)) nz"
  proof (intro map_cong refl)
    fix x assume "x \<in> set nz"
    then have "fst x \<in> set (map fst nz)" by simp
    from sub[OF this] show "(case x of (p, c) \<Rightarrow> (yxz_sub16 p sh, c))
        = (case x of (p, c) \<Rightarrow> (yxz_sub p sh, c))"
      by (simp add: case_prod_beta)
  qed
  have m: "max_axis0 (map fst (map (\<lambda>(p, c). (yxz_sub p sh, c)) nz))
         = (fst mx - fst sh, fst (snd mx) - fst (snd sh), snd (snd mx) - snd (snd sh))"
    using nne max_list_shift[of nz "\<lambda>pc. fst (fst pc)" "fst sh"]
      max_list_shift[of nz "\<lambda>pc. fst (snd (fst pc))" "fst (snd sh)"]
      max_list_shift[of nz "\<lambda>pc. snd (snd (fst pc))" "snd (snd sh)"]
    by (simp add: max_axis0_def mx_def comp_def yxz_sub_def case_prod_beta)
  have mm: "map (\<lambda>(p, c). (g p, c)) (map (\<lambda>(p, c). (yxz_sub p sh, c)) nz)
          = map (\<lambda>(p, c). (g (yxz_sub p sh), c)) nz" for g :: "yxz \<Rightarrow> int list"
    by (simp add: case_prod_beta)
  have ne': "map fst nz \<noteq> []" using nne by simp
  obtain py px pz where
    top: "py \<in> set (map fst nz)" "fst mx = fst py"
         "px \<in> set (map fst nz)" "fst (snd mx) = fst (snd px)"
         "pz \<in> set (map fst nz)" "snd (snd mx) = snd (snd pz)"
    using max_axis0_attained[OF ne'] unfolding mx_def by blast
  have span: "0 \<le> fst mx - fst sh" "fst mx - fst sh < 32767"
    "0 \<le> fst (snd mx) - fst (snd sh)" "fst (snd mx) - fst (snd sh) < 32767"
    "0 \<le> snd (snd mx) - snd (snd sh)" "snd (snd mx) - snd (snd sh) < 32767"
    using span_fits_shift(1)[OF f top(1)] span_fits_shift(2)[OF f top(3)]
      span_fits_shift(3)[OF f top(5)] top(2,4,6)
    by (simp_all add: sh_def)
  have w: "wrap16 (fst mx - fst sh + 1) = fst mx - fst sh + 1"
    "wrap16 (fst (snd mx) - fst (snd sh) + 1) = fst (snd mx) - fst (snd sh) + 1"
    "wrap16 (snd (snd mx) - snd (snd sh) + 1) = snd (snd mx) - snd (snd sh) + 1"
    using span by (simp_all add: wrap16_id)
  have z2: "zeros_of [fst mx - fst sh + 1, fst (snd mx) - fst (snd sh) + 1]
             = Inr (np_zeros [nat (fst mx - fst sh + 1), nat (fst (snd mx) - fst (snd sh) + 1)])"
    using span by (simp add: zeros_of_def)
  have z3: "zeros_of [fst mx - fst sh + 1, fst (snd mx) - fst (snd sh) + 1,
                      snd (snd mx) - snd (snd sh) + 1]
             = Inr (np_zeros [nat (fst mx - fst sh + 1), nat (fst (snd mx) - fst (snd sh) + 1),
                              nat (snd (snd mx) - snd (snd sh) + 1)])"
    using span by (simp add: zeros_of_def)
  have rng: "0 \<le> fst p - fst sh \<and> fst p - fst sh < fst mx - fst sh + 1
           \<and> 0 \<le> fst (snd p) - fst (snd sh)
           \<and> fst (snd p) - fst (snd sh) < fst (snd mx) - fst (snd sh) + 1
           \<and> 0 \<le> snd (snd p) - snd (snd sh)
           \<and> snd (snd p) - snd (snd sh) < snd (snd mx) - snd (snd sh) + 1"
    if "p \<in> set (map fst nz)" for p
    using span_fits_shift[OF f that] max_axis0_ge[OF that]
    by (simp add: sh_def mx_def)
  have a2: "assign_at (np_zeros [nat (fst mx - fst sh + 1), nat (fst (snd mx) - fst (snd sh) + 1)])
              (map (\<lambda>(p, c). (take 2 (yxz_list (yxz_sub p sh)), c)) nz)
            = Inr (scatter (np_zeros [nat (fst mx - fst sh + 1),
                                      nat (fst (snd mx) - fst (snd sh) + 1)])
                     (map (\<lambda>(p, c). (take 2 (yxz_list (yxz_sub p sh)), c)) nz))"
  proof (rule assign_at_in_bounds, clarsimp simp: np_zeros_def)
    fix a b c v assume "((a, b, c), v) \<in> set nz"
    then have "(a, b, c) \<in> set (map fst nz)" by force
    from rng[OF this]
    show "in_bounds [nat (fst mx - fst sh + 1), nat (fst (snd mx) - fst (snd sh) + 1)]
            (take 2 (yxz_list (yxz_sub (a, b, c) sh)))"
      by (simp add: in_bounds_def yxz_list_def yxz_sub_def numeral_2_eq_2)
  qed
  have a3: "assign_at (np_zeros [nat (fst mx - fst sh + 1), nat (fst (snd mx) - fst (snd sh) + 1),
                                 nat (snd (snd mx) - snd (snd sh) + 1)])
              (map (\<lambda>(p, c). (yxz_list (yxz_sub p sh), c)) nz)
            = Inr (scatter (np_zeros [nat (fst mx - fst sh + 1),
                                      nat (fst (snd mx) - fst (snd sh) + 1),
                                      nat (snd (snd mx) - snd (snd sh) + 1)])
                     (map (\<lambda>(p, c). (yxz_list (yxz_sub p sh), c)) nz))"
  proof (rule assign_at_in_bounds, clarsimp simp: np_zeros_def)
    fix a b c v assume "((a, b, c), v) \<in> set nz"
    then have "(a, b, c) \<in> set (map fst nz)" by force
    from rng[OF this]
    show "in_bounds [nat (fst mx - fst sh + 1), nat (fst (snd mx) - fst (snd sh) + 1),
                     nat (snd (snd mx) - snd (snd sh) + 1)]
            (yxz_list (yxz_sub (a, b, c) sh))"
      by (simp add: in_bounds_def yxz_list_def yxz_sub_def)
  qed
  show ?thesis
    unfolding cropped_coef_image_def sel
    using nne
    by (simp add: Let_def sh_def[symmetric] shifted m w z2 z3 a2 a3 mm del: map_map)
qed

text \<open>
  C3. For a pixel-location array and a coefficient column of the same length, with at
  least one non-zero coefficient, no two non-zero coefficients at the same location, and
  the locations with a non-zero coefficient less than 32767 apart along every axis (so
  that the 16-bit subtraction of the shift and the addition of one do not wrap),
  \<open>cropped_coef_image\<close> returns a shift that is the componentwise minimum of the
  locations with a non-zero coefficient, and an image whose extent along \<open>y\<close> and
  \<open>x\<close> is the span of these locations plus one, with a third axis of the span of
  \<open>z\<close> plus one unless that is one; the image holds each non-zero coefficient at its
  location minus the shift and zero at every other index.
\<close>

theorem cropped_coef_image_roundtrip:
  assumes len: "length (coefs_of col) = length pixel_yxz"
      and ne: "nz_pairs pixel_yxz col \<noteq> []"
      and dist: "distinct (map fst (nz_pairs pixel_yxz col))"
      and fits: "span_fits (map fst (nz_pairs pixel_yxz col))"
  shows "\<exists>img coord_shift.
           cropped_coef_image pixel_yxz col = Inr (img, coord_shift)
         \<and> coord_shift = (Min (set (map (fst \<circ> fst) (nz_pairs pixel_yxz col))),
                          Min (set (map (fst \<circ> snd \<circ> fst) (nz_pairs pixel_yxz col))),
                          Min (set (map (snd \<circ> snd \<circ> fst) (nz_pairs pixel_yxz col))))
         \<and> take 2 (shape img) =
              [nat (Max (set (map (fst \<circ> fst) (nz_pairs pixel_yxz col))) - fst coord_shift + 1),
               nat (Max (set (map (fst \<circ> snd \<circ> fst) (nz_pairs pixel_yxz col)))
                      - fst (snd coord_shift) + 1)]
         \<and> drop 2 (shape img) =
              (let n_z = Max (set (map (snd \<circ> snd \<circ> fst) (nz_pairs pixel_yxz col)))
                           - snd (snd coord_shift) + 1
               in if n_z = 1 then [] else [nat n_z])
         \<and> (\<forall>(p, c) \<in> set (nz_pairs pixel_yxz col). item img (vol_index img p coord_shift) = c)
         \<and> (\<forall>idx. idx \<notin> (\<lambda>(p, c). vol_index img p coord_shift) ` set (nz_pairs pixel_yxz col)
                \<longrightarrow> item img idx = 0)"
proof -
  define nz where "nz = nz_pairs pixel_yxz col"
  define sh where "sh = min_axis0 (map fst nz)"
  define mx where "mx = max_axis0 (map fst nz)"
  have nne: "nz \<noteq> []" using ne by (simp add: nz_def)
  have shE: "sh = (Min (set (map (fst \<circ> fst) nz)), Min (set (map (fst \<circ> snd \<circ> fst) nz)),
                   Min (set (map (snd \<circ> snd \<circ> fst) nz)))"
    using nne by (simp add: sh_def min_axis0_def min_list_Min comp_def image_image)
  have mxE: "mx = (Max (set (map (fst \<circ> fst) nz)), Max (set (map (fst \<circ> snd \<circ> fst) nz)),
                   Max (set (map (snd \<circ> snd \<circ> fst) nz)))"
    using nne by (simp add: mx_def max_axis0_def max_list_Max comp_def image_image)
  have cc: "cropped_coef_image pixel_yxz col =
     (if snd (snd mx) - snd (snd sh) + 1 = 1 then
        Inr (scatter (np_zeros [nat (fst mx - fst sh + 1), nat (fst (snd mx) - fst (snd sh) + 1)])
               (map (\<lambda>(p, c). (take 2 (yxz_list (yxz_sub p sh)), c)) nz), sh)
      else
        Inr (scatter (np_zeros [nat (fst mx - fst sh + 1), nat (fst (snd mx) - fst (snd sh) + 1),
                                nat (snd (snd mx) - snd (snd sh) + 1)])
               (map (\<lambda>(p, c). (yxz_list (yxz_sub p sh), c)) nz), sh))"
    unfolding nz_def sh_def mx_def using len ne fits by (rule cropped_unfold)
  have d: "distinct (map fst nz)" using dist by (simp add: nz_def)
  show ?thesis
  proof (cases "snd (snd mx) - snd (snd sh) + 1 = 1")
    case True
    let ?as = "map (\<lambda>(p, c). (take 2 (yxz_list (yxz_sub p sh)), c)) nz"
    let ?img = "scatter (np_zeros [nat (fst mx - fst sh + 1), nat (fst (snd mx) - fst (snd sh) + 1)]) ?as :: real ndarray"
    have res: "cropped_coef_image pixel_yxz col = Inr (?img, sh)" using cc True by simp
    have zeq: "snd (snd p) = snd (snd sh)" if "p \<in> set (map fst nz)" for p
    proof -
      have i: "snd (snd p) \<in> set (map (snd \<circ> snd) (map fst nz))" using that by auto
      have ne': "map (snd \<circ> snd) (map fst nz) \<noteq> []" using nne by simp
      have "snd (snd sh) \<le> snd (snd p)"
        using min_le_all[OF ne' i] by (simp add: sh_def min_axis0_def)
      moreover have "snd (snd p) \<le> snd (snd mx)"
        using all_le_max[OF ne' i] by (simp add: mx_def max_axis0_def)
      ultimately show ?thesis using True by simp
    qed
    have inj: "inj_on (\<lambda>p. take 2 (yxz_list (yxz_sub p sh))) (set (map fst nz))"
    proof (rule inj_onI)
      fix p q assume p: "p \<in> set (map fst nz)" and q: "q \<in> set (map fst nz)"
        and e: "take 2 (yxz_list (yxz_sub p sh)) = take 2 (yxz_list (yxz_sub q sh))"
      from e have "fst p = fst q" "fst (snd p) = fst (snd q)"
        by (simp_all add: yxz_list_def yxz_sub_def numeral_2_eq_2)
      moreover have "snd (snd p) = snd (snd q)" using zeq[OF p] zeq[OF q] by simp
      ultimately show "p = q" by (simp add: prod_eq_iff)
    qed
    have das: "distinct (map fst ?as)"
    proof -
      have "map fst ?as = map (\<lambda>p. take 2 (yxz_list (yxz_sub p sh))) (map fst nz)"
        by (simp add: case_prod_beta comp_def)
      then show ?thesis using d inj by (simp add: distinct_map del: map_map)
    qed
    have nd: "ndim ?img = 2" by (simp add: ndim_def scatter_shape np_zeros_def)
    have hit: "item ?img (vol_index ?img p sh) = c" if "(p, c) \<in> set nz" for p c
    proof -
      have "(take 2 (yxz_list (yxz_sub p sh)), c) \<in> set ?as" using that by force
      from scatter_item_distinct(1)[OF das this] show ?thesis
        by (simp add: vol_index_def nd)
    qed
    have miss: "item ?img idx = 0"
      if "idx \<notin> (\<lambda>(p, c). vol_index ?img p sh) ` set nz" for idx
    proof -
      have "idx \<notin> fst ` set ?as" using that by (force simp: vol_index_def nd)
      from scatter_item_distinct(2)[OF das this] show ?thesis by (simp add: np_zeros_def)
    qed
    show ?thesis
      apply (rule exI[of _ ?img], rule exI[of _ sh])
      using res True shE mxE hit miss
      by (simp add: nz_def[symmetric] scatter_shape np_zeros_def case_prod_beta)
  next
    case False
    let ?as = "map (\<lambda>(p, c). (yxz_list (yxz_sub p sh), c)) nz"
    let ?img = "scatter (np_zeros [nat (fst mx - fst sh + 1), nat (fst (snd mx) - fst (snd sh) + 1),
                                nat (snd (snd mx) - snd (snd sh) + 1)]) ?as :: real ndarray"
    have res: "cropped_coef_image pixel_yxz col = Inr (?img, sh)" using cc False by simp
    have inj: "inj_on (\<lambda>p. yxz_list (yxz_sub p sh)) (set (map fst nz))"
      by (rule inj_onI) (simp add: yxz_list_def yxz_sub_def prod_eq_iff)
    have das: "distinct (map fst ?as)"
    proof -
      have "map fst ?as = map (\<lambda>p. yxz_list (yxz_sub p sh)) (map fst nz)"
        by (simp add: case_prod_beta comp_def)
      then show ?thesis using d inj by (simp add: distinct_map del: map_map)
    qed
    have nd: "ndim ?img = 3" by (simp add: ndim_def scatter_shape np_zeros_def)
    have hit: "item ?img (vol_index ?img p sh) = c" if "(p, c) \<in> set nz" for p c
    proof -
      have "(yxz_list (yxz_sub p sh), c) \<in> set ?as" using that by force
      moreover have "vol_index ?img p sh = yxz_list (yxz_sub p sh)"
        unfolding vol_index_def nd by (simp add: yxz_list_def)
      ultimately show ?thesis using scatter_item_distinct(1)[OF das] by simp
    qed
    have miss: "item ?img idx = 0"
      if "idx \<notin> (\<lambda>(p, c). vol_index ?img p sh) ` set nz" for idx
    proof -
      have vi: "vol_index ?img p sh = yxz_list (yxz_sub p sh)" for p
        unfolding vol_index_def nd by (simp add: yxz_list_def)
      have "fst ` set ?as = (\<lambda>(p, c). vol_index ?img p sh) ` set nz"
        unfolding vi by (simp add: image_image case_prod_beta)
      then have "idx \<notin> fst ` set ?as" using that by simp
      from scatter_item_distinct(2)[OF das this] show ?thesis by (simp add: np_zeros_def)
    qed
    show ?thesis
      apply (rule exI[of _ ?img], rule exI[of _ sh])
      using res False shE mxE hit miss
      by (simp add: nz_def[symmetric] scatter_shape np_zeros_def case_prod_beta)
  qed
qed

theorem cropped_coef_image_roundtrip_witness:
  "length (coefs_of (Csr [4, 0, - 2])) = length [(1, 2, 0), (3, 2, 0), (2, 5, 0) :: yxz]
   \<and> nz_pairs [(1, 2, 0), (3, 2, 0), (2, 5, 0)] (Csr [4, 0, - 2]) \<noteq> []
   \<and> distinct (map fst (nz_pairs [(1, 2, 0), (3, 2, 0), (2, 5, 0)] (Csr [4, 0, - 2])))
   \<and> span_fits (map fst (nz_pairs [(1, 2, 0), (3, 2, 0), (2, 5, 0)] (Csr [4, 0, - 2])))
   \<and> (\<exists>img coord_shift.
         cropped_coef_image [(1, 2, 0), (3, 2, 0), (2, 5, 0)] (Csr [4, 0, - 2])
           = Inr (img, coord_shift)
       \<and> coord_shift = (1, 2, 0) \<and> shape img = [2, 4]
       \<and> item img [0, 0] = 4 \<and> item img [1, 3] = - 2 \<and> item img [0, 3] = 0)"
proof -
  let ?p = "[(1, 2, 0), (3, 2, 0), (2, 5, 0)] :: yxz list"
  let ?c = "Csr [4, 0, - 2]"
  have nzp: "nz_pairs ?p ?c = [((1, 2, 0), 4), ((2, 5, 0), - 2)]"
    by (simp add: nz_pairs_def coefs_of_def upt_rec)
  have h1: "length (coefs_of ?c) = length ?p" by (simp add: coefs_of_def)
  have h2: "nz_pairs ?p ?c \<noteq> []" by (simp add: nzp)
  have h3: "distinct (map fst (nz_pairs ?p ?c))" by (simp add: nzp)
  have h4: "span_fits (map fst (nz_pairs ?p ?c))" by (simp add: nzp span_fits_def)
  from cropped_coef_image_roundtrip[OF h1 h2 h3 h4] obtain img coord_shift where
    r: "cropped_coef_image ?p ?c = Inr (img, coord_shift)"
    and s: "coord_shift = (1, 2, 0)"
    and t: "take 2 (shape img) = [2, 4]" and dr: "drop 2 (shape img) = []"
    and hit: "\<forall>(p, c) \<in> set (nz_pairs ?p ?c). item img (vol_index img p coord_shift) = c"
    and miss: "\<forall>idx. idx \<notin> (\<lambda>(p, c). vol_index img p coord_shift) ` set (nz_pairs ?p ?c)
                \<longrightarrow> item img idx = 0"
    unfolding nzp by (auto simp: Let_def)
  have shp: "shape img = [2, 4]" using t dr by (metis append_take_drop_id append_Nil2)
  have nd: "ndim img = 2" by (simp add: ndim_def shp)
  have "item img [0, 0] = 4" "item img [1, 3] = - 2"
    using hit by (simp_all add: nzp vol_index_def nd s yxz_list_def yxz_sub_def)
  moreover have "item img [0, 3] = 0"
    using miss by (simp add: nzp vol_index_def nd s yxz_list_def yxz_sub_def)
  ultimately show ?thesis using h1 h2 h3 h4 r s shp by blast
qed

text \<open>
  At the limit of the 16-bit range the extent wraps: two locations 32767 apart give a
  length of \<open>-32768\<close>, which \<open>np.zeros\<close> refuses.
\<close>

lemma cropped_coef_image_int16_limit:
  "cropped_coef_image [(0, 0, 0), (32767, 0, 0)] (Dense [1, 1]) = Inl ValueError"
  by (simp add: cropped_coef_image_def Let_def upt_rec min_axis0_def max_axis0_def
        min_list_def max_list_def yxz_sub16_def wrap16_def zeros_of_def)

text \<open>
  C10 (as amended). \<open>cropped_coef_image\<close> needs a non-zero coefficient: for a column
  of the length of \<open>pixel_yxz\<close> whose coefficients are all zero it raises
  \<open>ValueError\<close>, from the minimum over no locations, and returns no image.
\<close>

theorem cropped_coef_image_nonzero:
  assumes "length (coefs_of col) = length pixel_yxz"
      and "\<forall>c \<in> set (coefs_of col). c = 0"
  shows "cropped_coef_image pixel_yxz col = Inl ValueError"
proof -
  have sel: "nz_select pixel_yxz col = Inr (nz_pairs pixel_yxz col)"
    using assms(1) by (rule nz_select_eq)
  have "nz_pairs pixel_yxz col = []"
    unfolding nz_pairs_def using assms(2) by (auto simp: filter_empty_conv)
  then show ?thesis
    unfolding cropped_coef_image_def sel by simp
qed

theorem cropped_coef_image_nonzero_witness:
  "length (coefs_of (Dense [0, 0])) = length [(0, 0, 0), (4, 1, 0) :: yxz]
   \<and> cropped_coef_image [(0, 0, 0), (4, 1, 0)] (Dense [0, 0]) = Inl ValueError"
  using cropped_coef_image_nonzero [of "Dense [0, 0]" "[(0, 0, 0), (4, 1, 0)]"]
  by (simp add: coefs_of_def)

text \<open>
  C10 as stated fails in its last part: keeping the pixels where some gene has a
  non-zero coefficient does not give every gene one. The single pixel with
  coefficients \<open>[1, 0]\<close> is kept, and \<open>get_spots\<close>, which builds the image of every
  gene, raises \<open>ValueError\<close> at the second gene.
\<close>

theorem unguarded_gene_counterexample:
  "keep_pixels [[1, 0]] = [0]
   \<and> get_spots detect_above \<lparr>sparse = True, n_genes = 2, rows = [[1, 0]]\<rparr> [(0, 0, 0)]
        1 None 0 None 0 None = Inl ValueError"
  by code_simp

section \<open>Counting neighbours\<close>

lemma in_bounds_nth:
  "in_bounds shp idx \<longleftrightarrow>
     length idx = length shp \<and> (\<forall>a<length shp. 0 \<le> idx ! a \<and> idx ! a < int (shp ! a))"
  by (auto simp: in_bounds_def list_all2_conv_all_nth)

lemma in_bounds_Cons:
  "in_bounds (n # ns) idx \<longleftrightarrow> (\<exists>i js. idx = i # js \<and> 0 \<le> i \<and> i < int n \<and> in_bounds ns js)"
  by (auto simp: in_bounds_def list_all2_Cons2)

lemma indices_Cons_set:
  "set (indices (n # ns)) = (\<Union>k \<in> {0..<n}. (#) (int k) ` set (indices ns))"
  by simp

lemma indices_set: "j \<in> set (indices shp) \<longleftrightarrow> in_bounds shp j"
proof (induction shp arbitrary: j)
  case Nil
  then show ?case by (simp add: in_bounds_def)
next
  case (Cons n ns)
  show ?case
  proof
    assume "j \<in> set (indices (n # ns))"
    then obtain k js where k: "k < n" "j = int k # js" "js \<in> set (indices ns)"
      unfolding indices_Cons_set by auto
    then have "in_bounds ns js" using Cons.IH by blast
    then show "in_bounds (n # ns) j" unfolding in_bounds_Cons using k by simp
  next
    assume "in_bounds (n # ns) j"
    then obtain i js where i: "j = i # js" "0 \<le> i" "i < int n" "in_bounds ns js"
      unfolding in_bounds_Cons by blast
    then have js: "js \<in> set (indices ns)" using Cons.IH by blast
    have "nat i \<in> {0..<n}" "i = int (nat i)" using i by simp_all
    then have "j \<in> (#) (int (nat i)) ` set (indices ns)" using i(1) js by simp
    then show "j \<in> set (indices (n # ns))"
      unfolding indices_Cons_set using \<open>nat i \<in> {0..<n}\<close> by blast
  qed
qed

lemma indices_length: "length (indices shp) = prod_list shp"
  by (induction shp) (simp_all add: length_concat comp_def sum_list_triv)

lemma sum_indicator:
  "sum_list (map (\<lambda>j. if Q j then 1 else 0) xs) = int (length (filter Q xs))"
  by (induction xs) auto

lemma axis_arith:
  fixes m n e :: nat and s j :: int
  assumes "0 \<le> s - int ((m - 1) div 2)" "s + int (m div 2) < int n"
    "int e \<le> j" "j < int (m + e)" "e = (if m mod 2 = 0 then 1 else 0)"
  shows "0 \<le> s + (j - int ((m + e) div 2)) \<and> s + (j - int ((m + e) div 2)) < int n"
  using assms by (auto split: if_splits) presburger+

lemma length_filter_concat:
  "length (filter Q (concat xss)) = sum_list (map (\<lambda>xs. length (filter Q xs)) xss)"
  by (induction xss) auto

lemma sum_from_offset:
  "sum_list (map (\<lambda>k. if e \<le> k then c else 0) [0..<m + e]) = m * (c::nat)"
  by (induction m) auto

lemma count_offset:
  "length es = length ms \<Longrightarrow>
   length (filter (\<lambda>j. list_all2 (\<lambda>i e. int e \<le> i) j es) (indices (map2 (+) ms es)))
     = prod_list ms"
proof (induction es ms rule: list_induct2)
  case Nil
  then show ?case by simp
next
  case (Cons e es m ms)
  let ?Q' = "\<lambda>j. list_all2 (\<lambda>i e. int e \<le> i) j es"
  let ?L = "indices (map2 (+) ms es)"
  have one: "length (filter (\<lambda>j. e \<le> k \<and> list_all2 (\<lambda>i e. int e \<le> i) j es) ?L)
              = (if e \<le> k then prod_list ms else 0)" for k
    using Cons.IH by simp
  have "length (filter (\<lambda>j. list_all2 (\<lambda>i e. int e \<le> i) j (e # es))
                  (indices (map2 (+) (m # ms) (e # es))))
        = sum_list (map (\<lambda>k. if e \<le> k then prod_list ms else 0) [0..<m + e])"
    by (simp add: length_filter_concat comp_def one)
  then show ?case by (simp add: sum_from_offset)
qed

lemma map2_add_zero:
  "\<forall>n \<in> set ms. f n = (0::nat) \<Longrightarrow> map2 (+) ms (map f ms) = ms"
  by (induction ms) auto

lemma ensure_odd_start:
  fixes flt :: "int ndarray"
  defines "es \<equiv> map (\<lambda>n. if n mod 2 = 0 then (1::nat) else 0) (shape flt)"
  shows "\<exists>k. ensure_odd_kernel flt ''start'' = Inr k
           \<and> shape k = map2 (+) (shape flt) es
           \<and> (\<forall>j. in_bounds (shape k) j \<longrightarrow>
                 item k j = (if list_all2 (\<lambda>i e. int e \<le> i) j es
                             then item flt (vsub j (map int es)) else 0))"
proof (cases "list_ex (\<lambda>e. e = 1) es")
  case True
  then show ?thesis
    by (simp add: ensure_odd_kernel_def es_def[symmetric] Let_def)
next
  case False
  then have z: "\<forall>n \<in> set (shape flt). (if n mod 2 = 0 then (1::nat) else 0) = 0"
    by (auto simp: es_def list_ex_iff)
  have r: "ensure_odd_kernel flt ''start'' = Inr flt"
    using False by (simp add: ensure_odd_kernel_def es_def[symmetric] Let_def)
  have s: "map2 (+) (shape flt) es = shape flt"
    unfolding es_def using z by (rule map2_add_zero)
  have e0: "es ! a = 0" if "a < length (shape flt)" for a
    using z that by (simp add: es_def)
  have c: "list_all2 (\<lambda>i e. int e \<le> i) j es \<and> vsub j (map int es) = j"
    if "in_bounds (shape flt) j" for j
  proof -
    have l: "length j = length (shape flt)" "\<forall>a<length (shape flt). 0 \<le> j ! a"
      using that by (simp_all add: in_bounds_nth)
    have "list_all2 (\<lambda>i e. int e \<le> i) j es"
      using l e0 by (simp add: list_all2_conv_all_nth es_def)
    moreover have "vsub j (map int es) = j"
      using l e0 by (intro nth_equalityI) (simp_all add: vsub_def es_def)
    ultimately show ?thesis by simp
  qed
  show ?thesis using r s c by simp
qed

lemma vadd_nth: "a < length u \<Longrightarrow> a < length v \<Longrightarrow> vadd u v ! a = u ! a + v ! a"
  by (simp add: vadd_def)

lemma vsub_nth: "a < length u \<Longrightarrow> a < length v \<Longrightarrow> vsub u v ! a = u ! a - v ! a"
  by (simp add: vsub_def)

lemma vadd_length: "length (vadd u v) = min (length u) (length v)"
  by (simp add: vadd_def)

lemma vsub_length: "length (vsub u v) = min (length u) (length v)"
  by (simp add: vsub_def)

lemma np_sum_ones:
  assumes "\<forall>j. in_bounds (shape flt) j \<longrightarrow> item flt j = 1"
  shows "np_sum flt = int (prod_list (shape flt))"
proof -
  have h: "map (item flt) (indices (shape flt)) = map (\<lambda>j. 1) (indices (shape flt))"
    using assms by (intro map_cong) (simp_all add: indices_set)
  show ?thesis unfolding np_sum_def h by (simp add: sum_list_triv indices_length)
qed

lemma spot_oob_none:
  assumes d: "0 < length shp" and sp: "\<forall>s \<in> set spot_yxz. in_bounds shp s"
  shows "spot_oob shp spot_yxz = Inr []"
proof -
  have a: "val \<noteq> [] \<and> \<not> min_list val < 0 \<and> exceeds val shp = Some False"
    if "val \<in> set spot_yxz" for val
  proof -
    have ib: "length val = length shp" "\<forall>a<length shp. 0 \<le> val ! a \<and> val ! a < int (shp ! a)"
      using sp that by (simp_all add: in_bounds_nth)
    have ne: "val \<noteq> []" using ib(1) d by auto
    have "\<forall>x \<in> set val. 0 \<le> x" using ib by (auto simp: in_set_conv_nth)
    then have "0 \<le> Min (set val)" using ne by (intro Min.boundedI) simp_all
    then have m: "\<not> min_list val < 0" using ne by (simp add: min_list_Min not_less)
    have "\<not> list_ex (\<lambda>(v, n). int n - 1 < v) (zip val shp)"
      using ib by (fastforce simp: list_ex_iff in_set_zip)
    then show ?thesis using m ne ib(1) by (simp add: exceeds_def)
  qed
  have "\<not> list_ex (\<lambda>val. val = [] \<or> (\<not> min_list val < 0 \<and> exceeds val shp = None)) spot_yxz"
    using a by (auto simp: list_ex_iff)
  moreover have "[val \<leftarrow> spot_yxz. min_list val < 0 \<or> exceeds val shp = Some True] = []"
    using a by (auto simp: filter_empty_conv)
  ultimately show ?thesis by (simp add: spot_oob_def)
qed

lemma correlate_ones:
  fixes img :: "real ndarray" and flt :: "int ndarray"
  assumes r: "ndim flt = ndim img"
    and ones: "\<forall>j. in_bounds (shape flt) j \<longrightarrow> item flt j = 1"
    and pos: "\<forall>i. in_bounds (shape img) i \<longrightarrow> 0 < item img i"
  shows "\<exists>out. imfilter (pos_image_of img) flt 0 ''corr'' = Inr out
           \<and> shape out = shape img
           \<and> (\<forall>s. length s = ndim img \<and> footprint_inside (shape img) (shape flt) s
                  \<longrightarrow> item out s = int (prod_list (shape flt)))"
proof -
  define ms where "ms = shape flt"
  define es where "es = map (\<lambda>n. if n mod 2 = 0 then (1::nat) else 0) ms"
  obtain k where k: "ensure_odd_kernel flt ''start'' = Inr k"
    "shape k = map2 (+) ms es"
    "\<forall>j. in_bounds (shape k) j \<longrightarrow>
        item k j = (if list_all2 (\<lambda>i e. int e \<le> i) j es
                    then item flt (vsub j (map int es)) else 0)"
    using ensure_odd_start[of flt] unfolding ms_def es_def by blast
  have les: "length es = length ms" by (simp add: es_def)
  have lk: "length (shape k) = length ms" using k(2) les by simp
  have lms: "length ms = length (shape img)" using r by (simp add: ms_def ndim_def)
  let ?P = "pos_image_of img"
  let ?F = "\<lambda>i. sum_list
                 [item k j * padded ?P 0 (vadd i (vsub j (centre (shape k)))).
                  j \<leftarrow> indices (shape k)]"
  have res: "imfilter ?P flt 0 ''corr'' = Inr (NDArray (shape img) ?F)"
    using k(1) lk lms by (simp add: imfilter_def correlate_def ndim_def pos_image_of_def)
  have val: "?F s = int (prod_list ms)"
    if ls: "length s = ndim img" and fp: "footprint_inside (shape img) (shape flt) s" for s
  proof -
    let ?Q = "\<lambda>j. list_all2 (\<lambda>i e. int e \<le> i) j es"
    have tm: "item k j * padded ?P 0 (vadd s (vsub j (centre (shape k))))
                  = (if ?Q j then 1 else 0)"
      if j: "j \<in> set (indices (shape k))" for j
    proof (cases "?Q j")
      case False
      then show ?thesis using k(3) j by (simp add: indices_set)
    next
      case True
      have jb: "length j = length ms" "\<forall>a<length ms. 0 \<le> j ! a \<and> j ! a < int (ms ! a + es ! a)"
        using j lk les unfolding indices_set in_bounds_nth k(2) by auto
      have qa: "\<forall>a<length ms. int (es ! a) \<le> j ! a"
        using True les by (simp add: list_all2_conv_all_nth)
      have "in_bounds ms (vsub j (map int es))"
        unfolding in_bounds_nth using jb qa les
        by (auto simp: vsub_length vsub_nth)
      then have f1: "item flt (vsub j (map int es)) = 1" using ones by (simp add: ms_def)
      have kj: "item k j = 1" using k(3) j True f1 by (simp add: indices_set)
      have "in_bounds (shape img) (vadd s (vsub j (centre (shape k))))"
        unfolding in_bounds_nth
      proof (intro conjI allI impI)
        show "length (vadd s (vsub j (centre (shape k)))) = length (shape img)"
          using ls jb(1) lk lms by (simp add: vadd_length vsub_length centre_def ndim_def)
      next
        fix a assume a: "a < length (shape img)"
        have am: "a < length ms" using a lms by simp
        have fa: "0 \<le> s ! a - int ((ms ! a - 1) div 2)"
                 "s ! a + int (ms ! a div 2) < int (shape img ! a)"
          using fp a by (simp_all add: footprint_inside_def list_all_iff ms_def)
        have ea: "es ! a = (if ms ! a mod 2 = 0 then 1 else 0)"
          using am by (simp add: es_def)
        have ca: "centre (shape k) ! a = int ((ms ! a + es ! a) div 2)"
          using am les by (simp add: centre_def k(2))
        have va: "vadd s (vsub j (centre (shape k))) ! a = s ! a + (j ! a - centre (shape k) ! a)"
          using a am ls jb(1) lk lms
          by (simp add: vadd_nth vsub_nth vsub_length centre_def ndim_def)
        from axis_arith[OF fa(1) fa(2) qa[rule_format, OF am] _ ea] jb(2) am
        have "0 \<le> s ! a + (j ! a - int ((ms ! a + es ! a) div 2))
              \<and> s ! a + (j ! a - int ((ms ! a + es ! a) div 2)) < int (shape img ! a)"
          by blast
        then show "0 \<le> vadd s (vsub j (centre (shape k))) ! a"
          and "vadd s (vsub j (centre (shape k))) ! a < int (shape img ! a)"
          unfolding va ca by simp_all
      qed
      then have "padded ?P 0 (vadd s (vsub j (centre (shape k)))) = 1"
        using pos by (simp add: padded_def pos_image_of_def)
      then show ?thesis using kj True by simp
    qed
    have "?F s = sum_list (map (\<lambda>j. if ?Q j then 1 else 0) (indices (shape k)))"
      using tm by (intro arg_cong[where f = sum_list] map_cong) simp_all
    also have "\<dots> = int (length (filter ?Q (indices (shape k))))"
      by (rule sum_indicator)
    also have "\<dots> = int (prod_list ms)"
      unfolding k(2) using count_offset[OF les] by simp
    finally show ?thesis .
  qed
  show ?thesis using res val by (simp add: ms_def)
qed

lemma in_bounds_snoc:
  assumes "shp \<noteq> []" "in_bounds (butlast shp) idx" "0 \<le> v" "v < int (last shp)"
  shows "in_bounds shp (idx @ [v])"
proof -
  have "list_all2 (\<lambda>i n. 0 \<le> i \<and> i < int n) (idx @ [v]) (butlast shp @ [last shp])"
    using assms by (intro list_all2_appendI) (simp_all add: in_bounds_def)
  then show ?thesis using assms(1) by (simp add: in_bounds_def)
qed

lemma drop_last_axis_all:
  assumes "shape a \<noteq> []" "last (shape a) = 1"
    and "\<forall>i. in_bounds (shape a) i \<longrightarrow> P (item a i)"
  shows "\<forall>i. in_bounds (shape (drop_last_axis a)) i \<longrightarrow> P (item (drop_last_axis a) i)"
  using assms in_bounds_snoc[of "shape a" _ 0] by (simp add: drop_last_axis_def)

lemma shape_three:
  assumes "ndim a = 3"
  obtains n0 n1 n2 where "shape a = [n0, n1, n2]"
  using assms by (auto simp: ndim_def length_Suc_conv numeral_3_eq_3)

lemma middle_plane_all:
  assumes "ndim a = 3" "shape a ! 2 \<noteq> 0"
    and "\<forall>i. in_bounds (shape a) i \<longrightarrow> P (item a i)"
  shows "\<forall>i. in_bounds (shape (middle_plane a)) i \<longrightarrow> P (item (middle_plane a) i)"
proof -
  obtain n0 n1 n2 where s: "shape a = [n0, n1, n2]" using assms(1) by (rule shape_three)
  have "in_bounds (shape a) (i @ [int (n2 div 2)])" if "in_bounds [n0, n1] i" for i
    using that assms(2) in_bounds_snoc[of "shape a" i "int (n2 div 2)"] by (simp add: s)
  then show ?thesis using assms(3) by (simp add: middle_plane_def s)
qed

lemma prod_list_butlast: "shp \<noteq> [] \<Longrightarrow> prod_list (butlast shp) * last shp = prod_list shp"
  by (induction shp) (simp_all add: mult.assoc)

text \<open>
  C7 (as amended). Let the pixels of the image all be positive, the mask one everywhere,
  and let the spots, after the corrections for an empty last axis, lie within the
  corrected image, which has as many axes as the filter that is handed to
  \<open>imfilter\<close>: the corrected mask, or its middle plane for a mask of three axes over an
  image of two. Then \<open>count_spot_neighbours\<close> returns one count per spot, and at every
  spot where the footprint of that filter lies within the image the count is the number of
  pixels of that filter. This is the number of pixels of the mask, but for a mask of
  three axes over an image of two, where it is the number of pixels of one plane of the
  mask: the number of pixels of the mask divided by its depth.
\<close>

theorem count_spot_neighbours_all_ones:
  fixes img :: "real ndarray" and pos_filter flt :: "int ndarray" and spot_yxz :: "int list list"
  defines "spots \<equiv> correct_spots img spot_yxz"
  defines "cimg \<equiv> correct_image img spots"
  assumes pos: "\<forall>i. in_bounds (shape img) i \<longrightarrow> 0 < item img i"
    and ones: "\<forall>j. in_bounds (shape pos_filter) j \<longrightarrow> item pos_filter j = 1"
    and ne: "spot_yxz \<noteq> []"
    and fit: "fit_filter (pos_image_of cimg) (correct_filter cimg pos_filter) = Inr flt"
    and r: "ndim flt = ndim cimg"
    and d: "0 < ndim cimg"
    and sp: "\<forall>s \<in> set spots. in_bounds (shape cimg) s"
  shows "\<exists>counts. count_spot_neighbours img spot_yxz pos_filter None = Inr (counts, None)
           \<and> length counts = length spot_yxz
           \<and> (\<forall>k<length spot_yxz.
                 footprint_inside (shape cimg) (shape flt) (spots ! k)
                 \<longrightarrow> counts ! k = np_sum flt)
           \<and> np_sum pos_filter
               = np_sum flt * (if ndim cimg = 2 \<and> ndim pos_filter = 3 then int (shape pos_filter ! 2) else 1)"
proof -
  have lsp: "length spots = length spot_yxz" by (simp add: spots_def correct_spots_def)
  have sne: "spots \<noteq> []" using ne lsp by (metis length_0_conv)
  have lhd: "length (hd spots) = ndim cimg"
    using sp sne by (simp add: in_bounds_nth ndim_def)
  have hd0: "hd spot_yxz \<noteq> []"
  proof
    assume "hd spot_yxz = []"
    then have "hd spots = []" using ne by (simp add: spots_def correct_spots_def hd_map)
    then show False using lhd d by simp
  qed
  have i0: "shape img \<noteq> []"
  proof
    assume "shape img = []"
    then have "ndim cimg = 0"
      by (simp add: cimg_def correct_image_def ndim_def drop_last_axis_def)
    then show False using d by simp
  qed
  have posi: "\<forall>i. in_bounds (shape cimg) i \<longrightarrow> 0 < item cimg i"
  proof (cases "ndim img = length (hd spots) + 1 \<and> last (shape img) = 1")
    case True
    then have "cimg = drop_last_axis img" by (simp add: cimg_def correct_image_def)
    then show ?thesis using drop_last_axis_all[OF i0 _ pos] True by simp
  next
    case False
    then have "cimg = img" by (auto simp: cimg_def correct_image_def)
    then show ?thesis using pos by simp
  qed
  define cf where "cf = correct_filter cimg pos_filter"
  have fit': "fit_filter (pos_image_of cimg) cf = Inr flt" using fit by (simp add: cf_def)
  have ndp: "ndim (pos_image_of cimg) = ndim cimg" by (simp add: ndim_def pos_image_of_def)
  have f0: "shape pos_filter \<noteq> []"
  proof
    assume e: "shape pos_filter = []"
    then have "cf = pos_filter" by (simp add: cf_def correct_filter_def ndim_def)
    then have "flt = pos_filter" using fit' e by (simp add: fit_filter_def ndim_def)
    then show False using r d e by (simp add: ndim_def)
  qed
  have cases_cf:
    "(int (ndim cimg) = int (ndim pos_filter) - 1 \<and> last (shape pos_filter) = 1 \<and> cf = drop_last_axis pos_filter)
     \<or> (\<not> (int (ndim cimg) = int (ndim pos_filter) - 1 \<and> last (shape pos_filter) = 1) \<and> cf = pos_filter)"
    by (auto simp: cf_def correct_filter_def)
  have onescf: "\<forall>j. in_bounds (shape cf) j \<longrightarrow> item cf j = 1"
    using cases_cf drop_last_axis_all[OF f0 _ ones] ones by auto
  have isin: "isin01 cf" using onescf by (simp add: isin01_def list_all_iff indices_set)
  have cases_flt:
    "(ndim cimg = 2 \<and> ndim cf = 3 \<and> shape cf ! 2 \<noteq> 0 \<and> flt = middle_plane cf)
     \<or> (\<not> (ndim cimg = 2 \<and> ndim cf = 3) \<and> flt = cf)"
    using fit' by (auto simp: fit_filter_def ndp split: if_splits)
  have onesf: "\<forall>j. in_bounds (shape flt) j \<longrightarrow> item flt j = 1"
    using cases_flt onescf middle_plane_all[of cf "\<lambda>x. x = 1"] by auto
  have dl: "0 < length (shape cimg)" using d by (simp add: ndim_def)
  have oob: "spot_oob (shape cimg) spots = Inr []" using dl sp by (rule spot_oob_none)
  obtain out where out: "imfilter (pos_image_of cimg) flt 0 ''corr'' = Inr out"
    "shape out = shape cimg"
    "\<forall>s. length s = ndim cimg \<and> footprint_inside (shape cimg) (shape flt) s
          \<longrightarrow> item out s = int (prod_list (shape flt))"
    using correlate_ones[OF r onesf posi] by blast
  have ls: "length s = ndim out" if "s \<in> set spots" for s
    using sp that out(2) by (simp add: in_bounds_nth ndim_def)
  have at: "at_spots out spots = Inr (map (item out) spots)"
  proof -
    have "\<not> list_ex (\<lambda>val. length val < ndim out) spots" using ls by (auto simp: list_ex_iff)
    moreover have "map (\<lambda>val. item out (take (ndim out) val)) spots = map (item out) spots"
      using ls by (intro map_cong) simp_all
    ultimately show ?thesis by (simp add: at_spots_def)
  qed
  have res: "count_spot_neighbours img spot_yxz pos_filter None = Inr (map (item out) spots, None)"
    unfolding count_spot_neighbours_def Let_def
    unfolding spots_def[symmetric] cimg_def[symmetric] cf_def[symmetric]
    using ne hd0 i0 f0 isin oob fit' out(1) at by simp
  have s1: "np_sum flt = int (prod_list (shape flt))" using onesf by (rule np_sum_ones)
  have s0: "np_sum pos_filter = int (prod_list (shape pos_filter))" using ones by (rule np_sum_ones)
  have rel: "prod_list (shape pos_filter)
             = prod_list (shape flt) * (if ndim cimg = 2 \<and> ndim pos_filter = 3 then shape pos_filter ! 2 else 1)"
  proof -
    consider (drop) "int (ndim cimg) = int (ndim pos_filter) - 1" "last (shape pos_filter) = 1"
                    "cf = drop_last_axis pos_filter"
      | (same) "cf = pos_filter" using cases_cf by blast
    then show ?thesis
    proof cases
      case drop
      have "ndim cf = ndim cimg" using drop(1,3) by (simp add: ndim_def drop_last_axis_def)
      then have f: "flt = cf" using cases_flt by auto
      have p: "prod_list (shape flt) = prod_list (shape pos_filter)"
        using prod_list_butlast[OF f0] drop(2,3) f by (simp add: drop_last_axis_def)
      have "shape pos_filter ! 2 = 1" if h: "ndim pos_filter = 3"
      proof -
        obtain n0 n1 n2 where "shape pos_filter = [n0, n1, n2]" using h by (rule shape_three)
        then show ?thesis using drop(2) by simp
      qed
      then show ?thesis using p by simp
    next
      case same
      show ?thesis
      proof (cases "ndim cimg = 2 \<and> ndim pos_filter = 3")
        case True
        then have m: "flt = middle_plane pos_filter" using cases_flt same by auto
        from True have "ndim pos_filter = 3" by simp
        then obtain n0 n1 n2 where "shape pos_filter = [n0, n1, n2]" by (rule shape_three)
        then show ?thesis using True m by (simp add: middle_plane_def)
      next
        case False
        then have "flt = pos_filter" using cases_flt same by auto
        then show ?thesis using False by auto
      qed
    qed
  qed
  have "map (item out) spots ! k = np_sum flt"
    if "k < length spot_yxz" "footprint_inside (shape cimg) (shape flt) (spots ! k)" for k
  proof -
    have kk: "k < length spots" using that(1) lsp by simp
    then have "spots ! k \<in> set spots" by simp
    then have "length (spots ! k) = ndim cimg" using sp by (simp add: in_bounds_nth ndim_def)
    then show ?thesis using out(3) that(2) s1 kk by simp
  qed
  moreover have "np_sum pos_filter
      = np_sum flt * (if ndim cimg = 2 \<and> ndim pos_filter = 3 then int (shape pos_filter ! 2) else 1)"
    unfolding s0 s1 using rel by (simp split: if_splits)
  ultimately show ?thesis using res lsp by simp
qed

theorem count_spot_neighbours_all_ones_witness:
  "\<exists>counts. count_spot_neighbours img_5x5 [[2, 2, 0]] (np_ones [3, 3, 3]) None
               = Inr (counts, None)
     \<and> length counts = 1 \<and> counts ! 0 = 9"
proof -
  let ?m = "middle_plane (np_ones [3, 3, 3])"
  have sp_eq: "correct_spots img_5x5 [[2, 2, 0]] = [[2, 2]]"
    by (simp add: correct_spots_def ndim_def img_5x5_def max_list_def)
  have im_eq: "correct_image img_5x5 [[2, 2]] = img_5x5"
    by (simp add: correct_image_def ndim_def img_5x5_def)
  have pos: "\<forall>i. in_bounds (shape img_5x5) i \<longrightarrow> 0 < item img_5x5 i"
    by (simp add: img_5x5_def)
  have ones: "\<forall>j. in_bounds (shape (np_ones [3, 3, 3])) j \<longrightarrow> item (np_ones [3, 3, 3]) j = 1"
    by (simp add: np_ones_def)
  have ne: "[[2, 2, 0]] \<noteq> ([] :: int list list)" by simp
  have fit: "fit_filter (pos_image_of img_5x5) (correct_filter img_5x5 (np_ones [3, 3, 3]))
               = Inr ?m"
    by (simp add: fit_filter_def correct_filter_def pos_image_of_def ndim_def img_5x5_def
          np_ones_def)
  have r: "ndim ?m = ndim img_5x5"
    by (simp add: ndim_def middle_plane_def np_ones_def img_5x5_def)
  have d: "0 < ndim img_5x5" by (simp add: ndim_def img_5x5_def)
  have sp: "\<forall>s \<in> set [[2, 2]]. in_bounds (shape img_5x5) s"
    by (simp add: img_5x5_def in_bounds_def)
  have fp: "footprint_inside (shape img_5x5) (shape ?m) ([[2, 2]] ! 0)"
    by (simp add: footprint_inside_def img_5x5_def np_ones_def middle_plane_def upt_rec)
  have n: "np_sum (np_ones [3, 3, 3]) = 27" by code_simp
  have dd: "ndim img_5x5 = 2 \<and> ndim (np_ones [3, 3, 3]) = 3 \<and> shape (np_ones [3, 3, 3]) ! 2 = 3"
    by (simp add: ndim_def img_5x5_def np_ones_def)
  from count_spot_neighbours_all_ones[where img = img_5x5 and pos_filter = "np_ones [3, 3, 3]"
      and spot_yxz = "[[2, 2, 0]]" and flt = ?m, unfolded sp_eq im_eq, OF pos ones ne fit r d sp]
  obtain counts where
    c: "count_spot_neighbours img_5x5 [[2, 2, 0]] (np_ones [3, 3, 3]) None = Inr (counts, None)"
    "length counts = length [[2, 2, 0 :: int]]"
    "\<forall>k<length [[2, 2, 0 :: int]].
        footprint_inside (shape img_5x5) (shape ?m) ([[2, 2]] ! k) \<longrightarrow> counts ! k = np_sum ?m"
    "np_sum (np_ones [3, 3, 3])
       = np_sum ?m * (if ndim img_5x5 = 2 \<and> ndim (np_ones [3, 3, 3]) = 3
                      then int (shape (np_ones [3, 3, 3]) ! 2) else 1)"
    by blast
  have "np_sum ?m = 9" using c(4) n dd by simp
  then have "counts ! 0 = 9" using c(3) fp by simp
  then show ?thesis using c(1) c(2) by simp
qed

text \<open>
  C7 as stated fails where the mask has an axis more than the image and is deeper than
  one plane, and where it has an axis less. Over an image of five by five positive
  pixels, the mask of three by three by three ones has 27 pixels and its footprint about
  the spot \<open>[2, 2]\<close> lies within the image, but only its middle plane is counted: the
  count is 9. Over an image of three by three by three positive pixels, with the mask of
  three by three ones, the filtering raises \<open>RuntimeError\<close>.
\<close>

theorem count_spot_neighbours_rank_counterexample:
  "np_sum (np_ones [3, 3, 3]) = 27
   \<and> footprint_inside (shape img_5x5) (shape (np_ones [3, 3, 3])) [2, 2]
   \<and> count_spot_neighbours img_5x5 [[2, 2]] (np_ones [3, 3, 3]) None = Inr ([9], None)
   \<and> count_spot_neighbours img_3x3x3 [[1, 1, 1]] (np_ones [3, 3]) None = Inl RuntimeError"
  by code_simp

section \<open>Detecting spots with a spot shape\<close>


lemma gene_loop_ok:
  "\<forall>g \<in> set gs. body g = Inr (rws g) \<Longrightarrow>
   gene_loop body gs acc = Inr (acc @ concat (map rws gs))"
  by (induction gs arbitrary: acc) auto

lemma gene_loop_err:
  "\<exists>g \<in> set gs. isl (body g) \<Longrightarrow> isl (gene_loop body gs acc)"
  by (induction gs arbitrary: acc) (auto split: sum.splits)

lemma spot_candidates_len:
  "spot_candidates d pc py rxy rz ct sh ext g = Some cs \<Longrightarrow> (loc, p, n) \<in> set cs
   \<Longrightarrow> length loc = 3"
  by (auto simp: spot_candidates_def vadd_def yxz_list_def 
           split: sum.splits prod.splits if_splits option.splits dest!: set_zip_leftD)

lemma gene_spots_none:
  "spot_candidates d pc py rxy rz ct sh ext g = None \<Longrightarrow>
   isl (gene_spots d pc py rxy rz ct (Some (pos_filter_of sh, neg_filter_of sh)) thr ext g)"
  by (auto simp: spot_candidates_def gene_spots_def Let_def
           split: sum.splits prod.splits if_splits option.splits)

lemma kept_rows:
  "map (\<lambda>(s, p, n). F s @ [gi, p, n]) (filter (\<lambda>(s, p, n). thr < p) (zip xs Z))
   = map (\<lambda>(loc, p, n). loc @ [gi, p, n])
       (filter (\<lambda>(loc, p, n). thr < (p::int)) (zip (map F xs) Z))"
proof (induction xs arbitrary: Z)
  case Nil
  then show ?case by simp
next
  case (Cons x xs)
  then show ?case by (cases Z) auto
qed

lemma gene_spots_some:
  assumes "spot_candidates d pc py rxy rz ct sh ext g = Some cs"
  shows "gene_spots d pc py rxy rz ct (Some (pos_filter_of sh, neg_filter_of sh)) thr ext g
     = Inr (map (\<lambda>(loc, p, n). loc @ [int g, p, n]) [(loc, p, n) \<leftarrow> cs. thr < p])"
proof -
  from assms obtain img sft where c: "cropped_coef_image py (column pc g) = Inr (img, sft)"
    by (auto simp: spot_candidates_def split: sum.splits)
  define cand where "cand = (case ext of
                   None \<Rightarrow> d img ct rxy rz
                 | Some sp \<Rightarrow>
                     Inr [vsub (take 3 s) (yxz_list sft). s \<leftarrow> sp, s ! 3 = int g])"
  from assms c obtain spots where sp: "cand = Inr spots"
    unfolding cand_def by (auto simp: spot_candidates_def split: sum.splits)
  show ?thesis
  proof (cases "spots = []")
    case True
    then show ?thesis using assms c sp
      unfolding cand_def by (simp add: spot_candidates_def gene_spots_def)
  next
    case False
    from assms c sp False obtain np nn where
      cnt: "count_spot_neighbours img spots (pos_filter_of sh) (Some (neg_filter_of sh))
              = Inr (np, nn)"
      unfolding cand_def by (auto simp: spot_candidates_def split: sum.splits)
    from assms c sp False cnt have w: "\<not> list_ex (\<lambda>s. length s \<noteq> ndim img) spots"
      and cs: "cs = zip (map (\<lambda>s. vadd (take 3 (s @ replicate 3 0)) (yxz_list sft)) spots)
                      (zip np (case nn of None \<Rightarrow> [] | Some k \<Rightarrow> k))"
      unfolding cand_def by (auto simp: spot_candidates_def split: if_splits)
    show ?thesis
      using c sp False cnt w
      unfolding cand_def gene_spots_def cs
      by (simp add: Let_def spot_row_def kept_rows[symmetric])
  qed
qed

lemma get_spots_shape_errors:
  assumes "check_shape py (n_pixels pc)"
  shows "count_eq sh 1 = 0 \<or> count_eq sh (- 1) = 0 \<Longrightarrow>
           get_spots d pc py rxy rz ct (Some sh) thr ext = Inl ValueError"
    and "count_eq sh 1 \<noteq> 0 \<Longrightarrow> count_eq sh (- 1) \<noteq> 0 \<Longrightarrow>
         thr < 0 \<or> np_sum (pos_filter_of sh) \<le> thr \<Longrightarrow>
           get_spots d pc py rxy rz ct (Some sh) thr ext
             = Inl (OutOfBoundsError ''pos_neighbour_thresh'' [thr] [0]
                      [np_sum (pos_filter_of sh) - 1])"
  using assms by (auto simp: get_spots_def)

lemma get_spots_loop:
  assumes "check_shape py (n_pixels pc)"
    and "count_eq sh 1 \<noteq> 0" "count_eq sh (- 1) \<noteq> 0" "0 \<le> thr" "thr < np_sum (pos_filter_of sh)"
    and "case ext of None \<Rightarrow> True | Some (sp, chk) \<Rightarrow> check_spot_coefs pc py ct sp chk = Inr ()"
  shows "get_spots d pc py rxy rz ct (Some sh) thr ext =
     (case gene_loop (gene_spots d pc py rxy rz ct (Some (pos_filter_of sh, neg_filter_of sh))
                        thr (map_option fst ext)) [0..<n_genes pc] [] of
        Inl e \<Rightarrow> Inl e
      | Inr spot_info \<Rightarrow>
          Inr (map (take 3) spot_info, map (\<lambda>r. r ! 3) spot_info,
               Some (map (\<lambda>r. r ! 4) spot_info, map (\<lambda>r. r ! 5) spot_info)))"
  using assms by (cases ext) (auto simp: get_spots_def split: sum.splits)

lemma retained_rows:
  assumes "\<forall>g<n. cands g \<noteq> None"
  shows "concat (map (\<lambda>g. map (\<lambda>(loc, p, n). loc @ [int g, p, n])
                            [(loc, p, n) \<leftarrow> the (cands g). thr < p]) [0..<n])
         = map (\<lambda>(loc, g, p, n). loc @ [g, p, n]) (retained_spots cands n thr)"
proof -
  have "map (\<lambda>(loc, p, n). loc @ [int g, p, n]) [(loc, p, n) \<leftarrow> the (cands g). thr < p]
       = map (\<lambda>(loc, g, p, n). loc @ [g, p, n])
           (case cands g of None \<Rightarrow> []
            | Some cs \<Rightarrow> map (\<lambda>(loc, p, n). (loc, int g, p, n)) [(loc, p, n) \<leftarrow> cs. thr < p])"
    if "g < n" for g
    using assms that by (cases "cands g") (auto simp: case_prod_beta)
  then show ?thesis
    unfolding retained_spots_def map_concat
    by (auto simp: comp_def intro!: arg_cong[where f = concat])
qed

lemma retained_len:
  assumes "\<And>g cs loc p n. cands g = Some cs \<Longrightarrow> (loc, p, n) \<in> set cs \<Longrightarrow> length loc = 3"
  shows "\<forall>(loc, g, p, n) \<in> set (retained_spots cands m thr). length loc = 3"
proof -
  have "length loc = 3" if "(loc, g, p, n) \<in> set (retained_spots cands m thr)" for loc g p n
  proof -
    from that have "\<exists>k cs. cands k = Some cs \<and> (loc, p, n) \<in> set cs"
      unfolding retained_spots_def
      by (auto split: option.splits intro: sym)
    then show ?thesis using assms by blast
  qed
  then show ?thesis by auto
qed

lemma rows_columns:
  assumes "\<forall>(loc, g, p, n) \<in> set R. length loc = 3"
  defines "info \<equiv> map (\<lambda>(loc, g, p, n). loc @ [g, p, n]) R"
  shows "map (take 3) info = map fst R" "map (\<lambda>r. r ! 3) info = map (fst \<circ> snd) R"
    "map (\<lambda>r. r ! 4) info = map (fst \<circ> snd \<circ> snd) R"
    "map (\<lambda>r. r ! 5) info = map (snd \<circ> snd \<circ> snd) R"
  using assms by (auto simp: nth_append case_prod_beta)

text \<open>
  C5 (as amended). With a spot shape, and \<open>pixel_yxz\<close> of the right shape,
  \<open>get_spots\<close> raises \<open>ValueError\<close> when the shape has no cell equal to 1 or no cell
  equal to -1; otherwise it raises \<open>OutOfBoundsError\<close> when the threshold is negative
  or not below the number of pixels of the positive mask. When the shape has both kinds
  of cell, the threshold is in \<open>[0, size of the positive mask)\<close> and the check of
  externally given spots passes, then either the image, the spots or the counts of some
  gene cannot be had and \<open>get_spots\<close> fails, or it returns exactly the candidate spots
  whose number of positive neighbours exceeds the threshold, gene after gene, each with
  its gene and its two counts.
\<close>

theorem get_spots_with_shape:
  assumes shp: "check_shape py (n_pixels pc)"
  shows "(count_eq sh 1 = 0 \<or> count_eq sh (- 1) = 0 \<longrightarrow>
            get_spots d pc py rxy rz ct (Some sh) thr ext = Inl ValueError)
       \<and> (count_eq sh 1 \<noteq> 0 \<and> count_eq sh (- 1) \<noteq> 0
            \<and> (thr < 0 \<or> np_sum (pos_filter_of sh) \<le> thr) \<longrightarrow>
            get_spots d pc py rxy rz ct (Some sh) thr ext
              = Inl (OutOfBoundsError ''pos_neighbour_thresh'' [thr] [0]
                       [np_sum (pos_filter_of sh) - 1]))
       \<and> (count_eq sh 1 \<noteq> 0 \<and> count_eq sh (- 1) \<noteq> 0
            \<and> 0 \<le> thr \<and> thr < np_sum (pos_filter_of sh)
            \<and> (case ext of None \<Rightarrow> True
                | Some (sp, chk) \<Rightarrow> check_spot_coefs pc py ct sp chk = Inr ()) \<longrightarrow>
            (let cands = spot_candidates d pc py rxy rz ct sh (map_option fst ext);
                 R = retained_spots cands (n_genes pc) thr
             in if \<forall>g<n_genes pc. cands g \<noteq> None
                then get_spots d pc py rxy rz ct (Some sh) thr ext
                       = Inr (map fst R, map (fst \<circ> snd) R,
                              Some (map (fst \<circ> snd \<circ> snd) R, map (snd \<circ> snd \<circ> snd) R))
                else isl (get_spots d pc py rxy rz ct (Some sh) thr ext)))"
proof (intro conjI impI)
  assume "count_eq sh 1 = 0 \<or> count_eq sh (- 1) = 0"
  then show "get_spots d pc py rxy rz ct (Some sh) thr ext = Inl ValueError"
    using get_spots_shape_errors(1)[OF shp] by blast
next
  assume "count_eq sh 1 \<noteq> 0 \<and> count_eq sh (- 1) \<noteq> 0
            \<and> (thr < 0 \<or> np_sum (pos_filter_of sh) \<le> thr)"
  then show "get_spots d pc py rxy rz ct (Some sh) thr ext
              = Inl (OutOfBoundsError ''pos_neighbour_thresh'' [thr] [0]
                       [np_sum (pos_filter_of sh) - 1])"
    using get_spots_shape_errors(2)[OF shp] by blast
next
  assume a: "count_eq sh 1 \<noteq> 0 \<and> count_eq sh (- 1) \<noteq> 0
            \<and> 0 \<le> thr \<and> thr < np_sum (pos_filter_of sh)
            \<and> (case ext of None \<Rightarrow> True
                | Some (sp, chk) \<Rightarrow> check_spot_coefs pc py ct sp chk = Inr ())"
  define cands where "cands = spot_candidates d pc py rxy rz ct sh (map_option fst ext)"
  define R where "R = retained_spots cands (n_genes pc) thr"
  define body where "body = gene_spots d pc py rxy rz ct
                       (Some (pos_filter_of sh, neg_filter_of sh)) thr (map_option fst ext)"
  have gs: "get_spots d pc py rxy rz ct (Some sh) thr ext =
     (case gene_loop body [0..<n_genes pc] [] of
        Inl e \<Rightarrow> Inl e
      | Inr spot_info \<Rightarrow>
          Inr (map (take 3) spot_info, map (\<lambda>r. r ! 3) spot_info,
               Some (map (\<lambda>r. r ! 4) spot_info, map (\<lambda>r. r ! 5) spot_info)))"
    unfolding body_def using a by (intro get_spots_loop[OF shp]) simp_all
  have res: "if \<forall>g<n_genes pc. cands g \<noteq> None
                then get_spots d pc py rxy rz ct (Some sh) thr ext
                       = Inr (map fst R, map (fst \<circ> snd) R,
                              Some (map (fst \<circ> snd \<circ> snd) R, map (snd \<circ> snd \<circ> snd) R))
                else isl (get_spots d pc py rxy rz ct (Some sh) thr ext)"
  proof (cases "\<forall>g<n_genes pc. cands g \<noteq> None")
    case True
    let ?rws = "\<lambda>g. map (\<lambda>(loc, p, n). loc @ [int g, p, n])
                            [(loc, p, n) \<leftarrow> the (cands g). thr < p]"
    have "\<forall>g \<in> set [0..<n_genes pc]. body g = Inr (?rws g)"
    proof
      fix g assume "g \<in> set [0..<n_genes pc]"
      then obtain cs where "cands g = Some cs" using True by auto
      then show "body g = Inr (?rws g)"
        unfolding body_def cands_def using gene_spots_some by simp
    qed
    from gene_loop_ok[OF this, of "[]"]
    have gl: "gene_loop body [0..<n_genes pc] []
               = Inr (map (\<lambda>(loc, g, p, n). loc @ [g, p, n]) R)"
      using retained_rows[OF True, of thr] by (simp add: R_def)
    have len: "\<forall>(loc, g, p, n) \<in> set R. length loc = 3"
      unfolding R_def cands_def
      by (rule retained_len) (rule spot_candidates_len)
    show ?thesis
      using True gs gl rows_columns[OF len] by simp
  next
    case False
    then obtain g where g: "g < n_genes pc" "cands g = None" by auto
    then have "isl (body g)" unfolding body_def cands_def by (intro gene_spots_none)
    then have "\<exists>g \<in> set [0..<n_genes pc]. isl (body g)" using g(1) by auto
    from gene_loop_err[OF this, of "[]"] show ?thesis
      using False gs by (auto split: sum.splits)
  qed
  show "let cands = spot_candidates d pc py rxy rz ct sh (map_option fst ext);
                 R = retained_spots cands (n_genes pc) thr
             in if \<forall>g<n_genes pc. cands g \<noteq> None
                then get_spots d pc py rxy rz ct (Some sh) thr ext
                       = Inr (map fst R, map (fst \<circ> snd) R,
                              Some (map (fst \<circ> snd \<circ> snd) R, map (snd \<circ> snd \<circ> snd) R))
                else isl (get_spots d pc py rxy rz ct (Some sh) thr ext)"
    unfolding Let_def using res unfolding R_def cands_def .
qed

theorem get_spots_with_shape_witness:
  "get_spots detect_above pc_ex py_ex 1 None 0 (Some (np_ones [1, 1])) 0 None = Inl ValueError
   \<and> get_spots detect_above pc_ex py_ex 1 None 0 (Some shape_1x3) 1 None
       = Inl (OutOfBoundsError ''pos_neighbour_thresh'' [1] [0]
                [np_sum (pos_filter_of shape_1x3) - 1])
   \<and> get_spots detect_above pc_ex py_ex 1 None 0 (Some shape_1x3) 0 None
       = Inr ([[0, 1, 0]], [0], Some ([1], [2]))"
proof -
  have h: "check_shape py_ex (n_pixels pc_ex)" by code_simp
  have a1: "count_eq (np_ones [1, 1]) (- 1) = 0" by code_simp
  have a2: "count_eq shape_1x3 1 \<noteq> 0" "count_eq shape_1x3 (- 1) \<noteq> 0"
    "np_sum (pos_filter_of shape_1x3) \<le> 1" "0 < np_sum (pos_filter_of shape_1x3)"
    by code_simp+
  have ng: "n_genes pc_ex = 1" by (simp add: pc_ex_def)
  have cand: "spot_candidates detect_above pc_ex py_ex 1 None 0 shape_1x3 None 0
                = Some [([0, 1, 0], 1, 2)]"
    by code_simp
  have R: "retained_spots (spot_candidates detect_above pc_ex py_ex 1 None 0 shape_1x3 None)
             (Suc 0) 0 = [([0, 1, 0], 0, 1, 2)]"
    by (simp add: retained_spots_def cand)
  have t1: "get_spots detect_above pc_ex py_ex 1 None 0 (Some (np_ones [1, 1])) 0 None
              = Inl ValueError"
    using get_spots_with_shape[OF h, of "np_ones [1, 1]" detect_above 1 None 0 0 None] a1
    by blast
  have t2: "get_spots detect_above pc_ex py_ex 1 None 0 (Some shape_1x3) 1 None
       = Inl (OutOfBoundsError ''pos_neighbour_thresh'' [1] [0]
                [np_sum (pos_filter_of shape_1x3) - 1])"
    using get_spots_with_shape[OF h, of shape_1x3 detect_above 1 None 0 1 None] a2
    by blast
  have t3: "get_spots detect_above pc_ex py_ex 1 None 0 (Some shape_1x3) 0 None
       = Inr ([[0, 1, 0]], [0], Some ([1], [2]))"
    using get_spots_with_shape[OF h, of shape_1x3 detect_above 1 None 0 0 None] a2
    by (simp add: ng cand R Let_def)
  show ?thesis using t1 t2 t3 by blast
qed

text \<open>
  C1 (as amended). With a spot shape that has a cell equal to 1 and a cell equal to -1,
  and a threshold equal to the number of pixels of the positive mask, \<open>get_spots\<close>
  does not return: it raises \<open>OutOfBoundsError\<close> for the threshold, whose largest
  allowed value is that number minus one.
\<close>

theorem get_spots_threshold_at_mask_size:
  assumes "check_shape py (n_pixels pc)" "count_eq sh 1 \<noteq> 0" "count_eq sh (- 1) \<noteq> 0"
  shows "get_spots d pc py rxy rz ct (Some sh) (np_sum (pos_filter_of sh)) ext
           = Inl (OutOfBoundsError ''pos_neighbour_thresh'' [np_sum (pos_filter_of sh)] [0]
                    [np_sum (pos_filter_of sh) - 1])"
  using assms by (simp add: get_spots_def)

theorem get_spots_threshold_at_mask_size_witness:
  "get_spots detect_above pc_ex py_ex 1 None 0 (Some shape_1x3)
     (np_sum (pos_filter_of shape_1x3)) None
   = Inl (OutOfBoundsError ''pos_neighbour_thresh'' [np_sum (pos_filter_of shape_1x3)] [0]
            [np_sum (pos_filter_of shape_1x3) - 1])"
proof -
  have h1: "check_shape py_ex (n_pixels pc_ex)" by code_simp
  have h2: "count_eq shape_1x3 1 \<noteq> 0" by code_simp
  have h3: "count_eq shape_1x3 (- 1) \<noteq> 0" by code_simp
  show ?thesis by (rule get_spots_threshold_at_mask_size[OF h1 h2 h3])
qed

text \<open>
  C1 as stated fails: for the shape \<open>[-1, 1, -1]\<close>, whose positive mask has one pixel,
  and the threshold 1, \<open>get_spots\<close> returns no empty set of spots but raises
  \<open>OutOfBoundsError\<close>.
\<close>

theorem threshold_at_mask_size_counterexample:
  "np_sum (pos_filter_of shape_1x3) = 1
   \<and> get_spots detect_above pc_ex py_ex 1 None 0 (Some shape_1x3) 1 None
       = Inl (OutOfBoundsError ''pos_neighbour_thresh'' [1] [0] [0])"
  by code_simp

text \<open>
  C5 as stated fails for a negative threshold: the shape \<open>[-1, 1, -1]\<close> has a cell
  equal to 1 and one equal to -1, and -1 is below the size 1 of the positive mask, yet
  \<open>get_spots\<close> retains nothing and raises \<open>OutOfBoundsError\<close>.
\<close>

theorem negative_threshold_counterexample:
  "count_eq shape_1x3 1 = 1 \<and> count_eq shape_1x3 (- 1) = 2
   \<and> - 1 < np_sum (pos_filter_of shape_1x3)
   \<and> get_spots detect_above pc_ex py_ex 1 None 0 (Some shape_1x3) (- 1) None
       = Inl (OutOfBoundsError ''pos_neighbour_thresh'' [- 1] [0] [0])"
  by code_simp

lemma restrict_use_length: "length (restrict_use use0 g_use) = length use0"
  by (induction use0 g_use rule: restrict_use.induct) simp_all

lemma restrict_use_nth:
  "length g_use = length (filter (\<lambda>u. u) use0) \<Longrightarrow> s < length use0 \<Longrightarrow>
   restrict_use use0 g_use ! s
     = (use0 ! s \<and> g_use ! length (filter (\<lambda>u. u) (take s use0)))"
proof (induction use0 g_use arbitrary: s rule: restrict_use.induct)
  case (1 g_use)
  then show ?case by simp
next
  case (2 us g_use)
  then show ?case by (cases s) simp_all
next
  case (3 us)
  then show ?case by simp
next
  case (4 us k g_use)
  then show ?case by (cases s) simp_all
qed

lemma at_spots_length: "at_spots a spots = Inr np \<Longrightarrow> length np = length spots"
  by (auto simp: at_spots_def split: if_splits)

lemma correct_spots_length: "length (correct_spots img spots) = length spots"
  by (simp add: correct_spots_def)

lemma count_spot_neighbours_length:
  assumes "count_spot_neighbours img spots flt nf = Inr (np, x)"
  shows "length np = length spots"
proof -
  from assms obtain out where "at_spots out (correct_spots img spots) = Inr np"
    by (auto simp: count_spot_neighbours_def Let_def
             split: if_splits sum.splits list.splits option.splits)
  then show ?thesis using at_spots_length correct_spots_length by metis
qed

lemma selected_length:
  "length xs = length us \<Longrightarrow>
   length [f s. (s, u) \<leftarrow> zip xs us, u] = length (filter (\<lambda>u. u) us)"
  by (induction xs us rule: list_induct2) auto

lemma rank_eq:
  "length (filter (\<lambda>u. u) (take s (map (\<lambda>gn. gn = (k::int)) gs)))
     = length [x \<leftarrow> take s gs. x = k]"
  by (simp add: take_map filter_map comp_def)
lemma gene_use_none:
  assumes "\<not> list_ex (\<lambda>u. u) (map (\<lambda>gn. gn = int g) spot_gene_no)"
  shows "gene_use pc py spot_yxz spot_gene_no flt g
           = Inr (map (\<lambda>gn. gn = int g) spot_gene_no, None)"
  using assms by (simp add: gene_use_def Let_def)

lemma gene_use_crop_err:
  assumes "list_ex (\<lambda>u. u) (map (\<lambda>gn. gn = int g) spot_gene_no)"
    and "cropped_coef_image py (column pc g) = Inl e"
  shows "gene_use pc py spot_yxz spot_gene_no flt g = Inl e"
  using assms by (simp add: gene_use_def Let_def)

lemma gene_use_count_err:
  assumes "list_ex (\<lambda>u. u) (map (\<lambda>gn. gn = int g) spot_gene_no)"
    and "cropped_coef_image py (column pc g) = Inr (img, sft)"
    and "count_spot_neighbours (sign_image img)
           [yxz_list (yxz_sub p sft).
            (p, u) \<leftarrow> zip spot_yxz (map (\<lambda>gn. gn = int g) spot_gene_no), u]
           flt None = Inl e"
  shows "gene_use pc py spot_yxz spot_gene_no flt g = Inl e"
  using assms by (simp add: gene_use_def Let_def)

lemma gene_use_some:
  assumes "list_ex (\<lambda>u. u) (map (\<lambda>gn. gn = int g) spot_gene_no)"
    and "cropped_coef_image py (column pc g) = Inr (img, sft)"
    and "count_spot_neighbours (sign_image img)
           [yxz_list (yxz_sub p sft).
            (p, u) \<leftarrow> zip spot_yxz (map (\<lambda>gn. gn = int g) spot_gene_no), u]
           flt None = Inr (np, y)"
  shows "\<exists>used. gene_use pc py spot_yxz spot_gene_no flt g
           = Inr (restrict_use (map (\<lambda>gn. gn = int g) spot_gene_no)
                    (map (\<lambda>n. n = np_sum flt) np), Some used)"
  using assms by (simp add: gene_use_def Let_def)
lemma gene_use_nth:
  assumes gu: "gene_use pc py spot_yxz spot_gene_no flt g = Inr (use, x)"
    and len: "length spot_yxz = length spot_gene_no"
    and s: "s < length spot_gene_no"
  shows "length use = length spot_gene_no"
    and "use ! s \<longleftrightarrow> spot_gene_no ! s = int g
           \<and> n_pos_neighb_of pc py spot_yxz spot_gene_no flt s = Some (np_sum flt)"
proof -
  define use0 where "use0 = map (\<lambda>gn. gn = int g) spot_gene_no"
  have l0: "length use0 = length spot_gene_no" by (simp add: use0_def)
  have u0: "use0 ! s \<longleftrightarrow> spot_gene_no ! s = int g" using s by (simp add: use0_def)
  have both: "length use = length spot_gene_no \<and>
       (use ! s \<longleftrightarrow> spot_gene_no ! s = int g
           \<and> n_pos_neighb_of pc py spot_yxz spot_gene_no flt s = Some (np_sum flt))"
  proof (cases "list_ex (\<lambda>u. u) use0")
    case False
    then have "use = use0"
      using gu gene_use_none[of g spot_gene_no pc py spot_yxz flt] by (simp add: use0_def)
    moreover have "\<not> use0 ! s"
    proof
      assume "use0 ! s"
      moreover have "use0 ! s \<in> set use0" using s l0 by simp
      ultimately show False using False by (auto simp: list_ex_iff)
    qed
    ultimately show ?thesis using u0 l0 by simp
  next
    case True
    then have ex: "list_ex (\<lambda>u. u) (map (\<lambda>gn. gn = int g) spot_gene_no)" by (simp add: use0_def)
    obtain img sft where c: "cropped_coef_image py (column pc g) = Inr (img, sft)"
    proof (cases "cropped_coef_image py (column pc g)")
      case (Inl e)
      then show ?thesis using gene_use_crop_err[OF ex Inl, of spot_yxz flt] gu by simp
    next
      case (Inr r)
      then show ?thesis using that by (cases r) simp
    qed
    define sel where "sel = [yxz_list (yxz_sub p sft).
         (p, u) \<leftarrow> zip spot_yxz (map (\<lambda>gn. gn = int g) spot_gene_no), u]"
    obtain np y where n: "count_spot_neighbours (sign_image img) sel flt None = Inr (np, y)"
    proof (cases "count_spot_neighbours (sign_image img) sel flt None")
      case (Inl e)
      then show ?thesis using gene_use_count_err[OF ex c Inl[unfolded sel_def]] gu by simp
    next
      case (Inr r)
      then show ?thesis using that by (cases r) simp
    qed
    have u: "use = restrict_use use0 (map (\<lambda>n. n = np_sum flt) np)"
      using gene_use_some[OF ex c n[unfolded sel_def]] gu by (auto simp: use0_def)
    have ln: "length np = length (filter (\<lambda>u. u) use0)"
      using count_spot_neighbours_length[OF n] selected_length[of spot_yxz use0] len l0
      by (simp add: sel_def use0_def)
    have rk: "length (filter (\<lambda>u. u) (take s use0)) = length [k \<leftarrow> take s spot_gene_no. k = int g]"
      unfolding use0_def by (rule rank_eq)
    have rl: "length [k \<leftarrow> take s spot_gene_no. k = int g] < length np" if t: "use0 ! s"
    proof -
      have d: "drop s use0 = use0 ! s # drop (Suc s) use0"
        using s l0 by (simp add: Cons_nth_drop_Suc)
      have "length (filter (\<lambda>u. u) (take s use0 @ drop s use0))
              = length (filter (\<lambda>u. u) (take s use0)) + length (filter (\<lambda>u. u) (drop s use0))"
        by (simp only: filter_append length_append)
      then have "length (filter (\<lambda>u. u) use0)
              = length (filter (\<lambda>u. u) (take s use0)) + length (filter (\<lambda>u. u) (drop s use0))"
        by (simp only: append_take_drop_id)
      moreover have "0 < length (filter (\<lambda>u. u) (drop s use0))"
        unfolding d using t by simp
      ultimately show ?thesis using ln rk by simp
    qed
    have us: "use ! s \<longleftrightarrow> use0 ! s \<and> np ! length [k \<leftarrow> take s spot_gene_no. k = int g] = np_sum flt"
    proof (cases "use0 ! s")
      case False
      then show ?thesis
        unfolding u using restrict_use_nth[of "map (\<lambda>n. n = np_sum flt) np" use0 s] ln s l0
        by simp
    next
      case True
      then show ?thesis
        unfolding u using restrict_use_nth[of "map (\<lambda>n. n = np_sum flt) np" use0 s] ln s l0
          rl[OF True] rk
        by simp
    qed
    have npn: "n_pos_neighb_of pc py spot_yxz spot_gene_no flt s
                 = Some (np ! length [k \<leftarrow> take s spot_gene_no. k = int g])"
      if e: "spot_gene_no ! s = int g"
      using c n[unfolded sel_def] by (simp add: n_pos_neighb_of_def Let_def e)
    have "length use = length spot_gene_no" unfolding u by (simp add: restrict_use_length l0)
    then show ?thesis using us npn u0 by auto
  qed
  show "length use = length spot_gene_no" using both by simp
  show "use ! s \<longleftrightarrow> spot_gene_no ! s = int g
           \<and> n_pos_neighb_of pc py spot_yxz spot_gene_no flt s = Some (np_sum flt)"
    using both by simp
qed

lemma gene_use_unmarked:
  assumes gu: "gene_use pc py spot_yxz spot_gene_no flt g = Inr (use, None)"
  shows "\<not> list_ex (\<lambda>u. u) use"
proof (cases "list_ex (\<lambda>u. u) (map (\<lambda>gn. gn = int g) spot_gene_no)")
  case False
  then show ?thesis using gu gene_use_none[OF False, of pc py spot_yxz flt] by simp
next
  case True
  show ?thesis
  proof (cases "cropped_coef_image py (column pc g)")
    case (Inl e)
    then show ?thesis using gene_use_crop_err[OF True Inl, of spot_yxz flt] gu by simp
  next
    case (Inr r)
    obtain img sft where c: "cropped_coef_image py (column pc g) = Inr (img, sft)"
      using Inr by (cases r) simp
    show ?thesis
    proof (cases "count_spot_neighbours (sign_image img)
           [yxz_list (yxz_sub p sft).
            (p, u) \<leftarrow> zip spot_yxz (map (\<lambda>gn. gn = int g) spot_gene_no), u] flt None")
      case (Inl e)
      then show ?thesis using gene_use_count_err[OF True c Inl] gu by simp
    next
      case (Inr q)
      obtain np y where "q = (np, y)" by (cases q)
      then show ?thesis using gene_use_some[OF True c Inr[unfolded \<open>q = (np, y)\<close>]] gu by auto
    qed
  qed
qed

lemma assign_where_length: "length (assign_where arr msk vals) = length arr"
  by (induction arr msk vals rule: assign_where.induct) simp_all

lemma not_list_ex_nth:
  assumes "\<not> list_ex (\<lambda>u. u) use" "s < length use"
  shows "\<not> use ! s"
proof
  assume "use ! s"
  moreover have "use ! s \<in> set use" using assms(2) by simp
  ultimately have "\<exists>u \<in> set use. u" by metis
  then show False using assms(1) by (simp add: list_ex_iff)
qed

lemma used_loop_marks:
  assumes "used_loop gsi pc py spot_yxz spot_gene_no flt ms gs (ims, su) = Inr (ims', su')"
    and len: "length spot_yxz = length spot_gene_no"
    and ls: "length su = length spot_gene_no" "length ims = length spot_gene_no"
    and s: "s < length spot_gene_no"
  shows "length su' = length spot_gene_no \<and> length ims' = length spot_gene_no
       \<and> (su' ! s \<longleftrightarrow> su ! s
             \<or> (\<exists>g \<in> set gs. spot_gene_no ! s = int g
                   \<and> n_pos_neighb_of pc py spot_yxz spot_gene_no flt s = Some (np_sum flt)))"
  using assms(1) ls
proof (induction gs arbitrary: ims su)
  case Nil
  then show ?case by simp
next
  case (Cons g gs)
  show ?case
  proof (cases "gene_use pc py spot_yxz spot_gene_no flt g")
    case (Inl e)
    then show ?thesis using Cons.prems(1) by simp
  next
    case (Inr r)
    obtain use x where r: "r = (use, x)" by (cases r)
    have gu: "gene_use pc py spot_yxz spot_gene_no flt g = Inr (use, x)" using Inr r by simp
    note un = gene_use_nth[OF gu len s]
    have same: ?thesis
      if st: "used_loop gsi pc py spot_yxz spot_gene_no flt ms gs (ims, su) = Inr (ims', su')"
        and nu: "\<not> use ! s"
    proof -
      from Cons.IH[OF st Cons.prems(2,3)] show ?thesis using nu un(2) by auto
    qed
    show ?thesis
    proof (cases x)
      case None
      have st: "used_loop gsi pc py spot_yxz spot_gene_no flt ms gs (ims, su) = Inr (ims', su')"
        using Cons.prems(1) gu None by simp
      have "\<not> use ! s"
        using gene_use_unmarked[OF gu[unfolded None]] un(1) s by (simp add: not_list_ex_nth)
      then show ?thesis using same[OF st] by simp
    next
      case (Some cu)
      obtain csi gsu where cu: "cu = (csi, gsu)" by (cases cu)
      show ?thesis
      proof (cases "list_ex (\<lambda>u. u) use")
        case False
        have st: "used_loop gsi pc py spot_yxz spot_gene_no flt ms gs (ims, su) = Inr (ims', su')"
          using Cons.prems(1) gu Some cu False by simp
        have "\<not> use ! s" using False un(1) s by (simp add: not_list_ex_nth)
        then show ?thesis using same[OF st] by simp
      next
        case True
        have st: "used_loop gsi pc py spot_yxz spot_gene_no flt ms gs
                    (assign_where ims use (gsi csi gsu ms), map2 (\<lambda>u d. u \<or> d) use su)
                  = Inr (ims', su')"
          using Cons.prems(1) gu Some cu True by simp
        have l1: "length (map2 (\<lambda>u d. u \<or> d) use su) = length spot_gene_no"
          using un(1) Cons.prems(2) by simp
        have l2: "length (assign_where ims use (gsi csi gsu ms)) = length spot_gene_no"
          using Cons.prems(3) by (simp add: assign_where_length)
        have n: "map2 (\<lambda>u d. u \<or> d) use su ! s = (use ! s \<or> su ! s)"
          using un(1) Cons.prems(2) s by simp
        from Cons.IH[OF st l1 l2] show ?thesis unfolding n using un(2) by auto
      qed
    qed
  qed
qed
lemma gene_in_range: "(\<exists>g \<in> set [0..<n]. k = int g \<and> P) \<longleftrightarrow> 0 \<le> k \<and> k < int n \<and> P"
proof
  assume "\<exists>g \<in> set [0..<n]. k = int g \<and> P"
  then show "0 \<le> k \<and> k < int n \<and> P" by auto
next
  assume a: "0 \<le> k \<and> k < int n \<and> P"
  then have "nat k < n" by linarith
  then have "nat k \<in> set [0..<n]" "k = int (nat k)" using a by simp_all
  then show "\<exists>g \<in> set [0..<n]. k = int g \<and> P" using a by blast
qed

text \<open>
  C4. When \<open>spot_neighbourhood\<close> comes to its spots (the marks \<open>spots_used\<close>, among
  which the isolated spots are then chosen, and their images), a spot is marked if and
  only if its gene is one of the genes and the number of its positive neighbours under
  \<open>pos_filter\<close>, as \<open>count_spot_neighbours\<close> finds it in the sign image of its gene,
  is equal to the sum of \<open>pos_filter\<close>. So a spot with a smaller count is not marked,
  and there is one image for every marked spot and none for another.
\<close>

theorem spot_neighbourhood_full_agreement:
  fixes pixel_yxz :: "yxz list" and pos_neighbour_thresh :: nat
  defines "pos_filter \<equiv>
             make_pos_filter pos_neighbour_thresh (wrap16 (snd (snd (max_axis0 pixel_yxz)) + 1))"
  assumes r: "spot_neighbourhood get_spot_images pixel_coefs pixel_yxz spot_yxz spot_gene_no
                max_size pos_neighbour_thresh = Inr (spots_used, images)"
    and s: "s < length spot_gene_no"
  shows "length spots_used = length spot_gene_no
       \<and> length images = length (filter (\<lambda>u. u) spots_used)
       \<and> (spots_used ! s \<longleftrightarrow>
            0 \<le> spot_gene_no ! s \<and> spot_gene_no ! s < int (n_genes pixel_coefs)
            \<and> n_pos_neighb_of pixel_coefs pixel_yxz spot_yxz spot_gene_no pos_filter s
                = Some (np_sum pos_filter))
       \<and> (\<forall>c. n_pos_neighb_of pixel_coefs pixel_yxz spot_yxz spot_gene_no pos_filter s = Some c
              \<and> c < np_sum pos_filter \<longrightarrow> \<not> spots_used ! s)"
proof -
  define n where "n = length spot_gene_no"
  define n_z where "n_z = wrap16 (snd (snd (max_axis0 pixel_yxz)) + 1)"
  define ms where "ms = map (\<lambda>m. if m mod 2 = 0 then m + 1 else m)
                         (if n_z = 1 then max_size[2 := 1] else max_size)"
  have pf: "pos_filter = make_pos_filter pos_neighbour_thresh n_z"
    by (simp add: pos_filter_def n_z_def)
  have len: "length spot_yxz = length spot_gene_no"
    using r by (simp add: spot_neighbourhood_def check_shape_def split: if_splits)
  obtain ims where
    lp: "used_loop get_spot_images pixel_coefs pixel_yxz spot_yxz spot_gene_no pos_filter ms
           [0..<n_genes pixel_coefs] (replicate n (np_zeros ms), replicate n False)
         = Inr (ims, spots_used)"
    and im: "images = [im. (im, u) \<leftarrow> zip ims spots_used, u]"
  proof (cases "used_loop get_spot_images pixel_coefs pixel_yxz spot_yxz spot_gene_no pos_filter
           ms [0..<n_genes pixel_coefs] (replicate n (np_zeros ms), replicate n False)")
    case (Inl e)
    then have False
      using r unfolding spot_neighbourhood_def Let_def
      by (simp add: n_def n_z_def[symmetric] ms_def[symmetric] pf[symmetric] split: if_splits)
    then show ?thesis ..
  next
    case (Inr q)
    obtain ims su where q: "q = (ims, su)" by (cases q)
    have "su = spots_used \<and> images = [im. (im, u) \<leftarrow> zip ims su, u]"
      using r Inr q unfolding spot_neighbourhood_def Let_def
      by (auto simp: n_def n_z_def[symmetric] ms_def[symmetric] pf[symmetric] split: if_splits)
    then show ?thesis using that Inr q by simp
  qed
  have m: "length spots_used = length spot_gene_no \<and> length ims = length spot_gene_no
       \<and> (spots_used ! s \<longleftrightarrow> replicate n False ! s
             \<or> (\<exists>g \<in> set [0..<n_genes pixel_coefs]. spot_gene_no ! s = int g
                   \<and> n_pos_neighb_of pixel_coefs pixel_yxz spot_yxz spot_gene_no pos_filter s
                       = Some (np_sum pos_filter)))"
  proof (rule used_loop_marks[OF lp len _ _ s])
    show "length (replicate n False) = length spot_gene_no" by (simp add: n_def)
    show "length (replicate n (np_zeros ms :: int ndarray)) = length spot_gene_no"
      by (simp add: n_def)
  qed
  have f: "\<not> replicate n False ! s" using s by (simp add: n_def)
  have li: "length images = length (filter (\<lambda>u. u) spots_used)"
    unfolding im using m by (intro selected_length) simp
  have iff: "spots_used ! s \<longleftrightarrow>
            0 \<le> spot_gene_no ! s \<and> spot_gene_no ! s < int (n_genes pixel_coefs)
            \<and> n_pos_neighb_of pixel_coefs pixel_yxz spot_yxz spot_gene_no pos_filter s
                = Some (np_sum pos_filter)"
    using m f unfolding gene_in_range by simp
  show ?thesis using m li iff by auto
qed

theorem spot_neighbourhood_full_agreement_witness:
  "\<exists>images.
     spot_neighbourhood zero_spot_images pc_ex py_ex [(0, 1, 0), (0, 0, 0)] [0, 0] [3, 3, 1] 1
       = Inr ([True, False], images)
     \<and> length images = 1
     \<and> np_sum (make_pos_filter 1 1) = 1
     \<and> n_pos_neighb_of pc_ex py_ex [(0, 1, 0), (0, 0, 0)] [0, 0] (make_pos_filter 1 1) 0 = Some 1
     \<and> n_pos_neighb_of pc_ex py_ex [(0, 1, 0), (0, 0, 0)] [0, 0] (make_pos_filter 1 1) 1 = Some 0"
proof -
  let ?sp = "[(0, 1, 0), (0, 0, 0)] :: yxz list"
  have e: "map_sum id fst (spot_neighbourhood zero_spot_images pc_ex py_ex ?sp [0, 0] [3, 3, 1] 1)
             = Inr [True, False]"
    by code_simp
  then obtain images where
    r: "spot_neighbourhood zero_spot_images pc_ex py_ex ?sp [0, 0] [3, 3, 1] 1
          = Inr ([True, False], images)"
    by (cases "spot_neighbourhood zero_spot_images pc_ex py_ex ?sp [0, 0] [3, 3, 1] 1") auto
  have s: "0 < length [0, 0 :: int]" by simp
  have c: "np_sum (make_pos_filter 1 1) = 1"
    "n_pos_neighb_of pc_ex py_ex ?sp [0, 0] (make_pos_filter 1 1) 0 = Some 1"
    "n_pos_neighb_of pc_ex py_ex ?sp [0, 0] (make_pos_filter 1 1) 1 = Some 0"
    by code_simp+
  from spot_neighbourhood_full_agreement[OF r s]
  have "length images = length (filter (\<lambda>u. u) [True, False])" by blast
  then show ?thesis using r c by simp
qed

section \<open>Duplicates between tiles\<close>








end
